theory Spec2Isabelle
  imports Complex_Main "HOL-Library.AList" "HOL-Library.Multiset" "HOL-Library.Log_Nat"
begin

section \<open>JavaScript numbers\<close>

text \<open>
  A JavaScript number is a binary64 double: a finite double, which is a rational
  (\<open>Fin\<close>), one of the two infinities, or \<open>NaN\<close>. An arithmetic operation on finite
  doubles is its exact result rounded by \<open>binary64\<close> to the nearest double, ties to
  the even significand, with 53 significant bits and the least exponent \<open>-1074\<close> of
  the subnormal range; a rounded result of magnitude \<open>2^1024\<close> or more is an infinity
  (\<open>toNumber\<close>). The sign of a zero is not represented: no operation of the code
  modelled here tells the two zeros apart.
  Values the program counts or reads from the clock (lengths, indexes, millisecond
  timestamps) are \<open>int\<close> or \<open>nat\<close>.
\<close>

datatype number = Fin rat | PosInf | NegInf | NaN

definition roundHalfEven :: "rat \<Rightarrow> int" where
  "roundHalfEven x =
     (let f = \<lfloor>x\<rfloor>; r = x - of_int f
      in if r < 1 / 2 then f
         else if r > 1 / 2 then f + 1
         else if even f then f else f + 1)"

text \<open>For \<open>x > 0\<close>, the exponent \<open>e\<close> with \<open>2^e \<le> x < 2^(e+1)\<close>.\<close>

definition floorLog2 :: "rat \<Rightarrow> int" where
  "floorLog2 x = (if 1 \<le> x then bitlen \<lfloor>x\<rfloor> - 1 else - bitlen (\<lceil>1 / x\<rceil> - 1))"

definition binary64 :: "rat \<Rightarrow> rat" where
  "binary64 x =
     (if x = 0 then 0
      else (let e = max (floorLog2 \<bar>x\<bar> - 52) (- 1074)
            in of_int (roundHalfEven (x / 2 powi e)) * 2 powi e))"

definition toNumber :: "rat \<Rightarrow> number" where
  "toNumber x =
     (let r = binary64 x
      in if 1024 \<le> floorLog2 \<bar>r\<bar> then (if 0 < r then PosInf else NegInf) else Fin r)"

text \<open>The operators \<open>+\<close>, unary \<open>-\<close>, binary \<open>-\<close>, \<open>*\<close> and \<open>/\<close>.\<close>

fun jadd :: "number \<Rightarrow> number \<Rightarrow> number" where
  "jadd (Fin x) (Fin y) = toNumber (x + y)"
| "jadd NaN y = NaN"
| "jadd x NaN = NaN"
| "jadd PosInf NegInf = NaN"
| "jadd NegInf PosInf = NaN"
| "jadd PosInf y = PosInf"
| "jadd NegInf y = NegInf"
| "jadd (Fin x) PosInf = PosInf"
| "jadd (Fin x) NegInf = NegInf"

fun jneg :: "number \<Rightarrow> number" where
  "jneg (Fin x) = Fin (- x)"
| "jneg PosInf = NegInf"
| "jneg NegInf = PosInf"
| "jneg NaN = NaN"

definition jsub :: "number \<Rightarrow> number \<Rightarrow> number" where
  "jsub x y = jadd x (jneg y)"

text \<open>The sign of a number: \<open>1\<close>, \<open>-1\<close>, or \<open>0\<close> for zero and for \<open>NaN\<close>.\<close>

fun signOf :: "number \<Rightarrow> int" where
  "signOf (Fin x) = (if 0 < x then 1 else if x < 0 then - 1 else 0)"
| "signOf PosInf = 1"
| "signOf NegInf = - 1"
| "signOf NaN = 0"

definition infinityOf :: "int \<Rightarrow> number" where
  "infinityOf sg = (if 0 < sg then PosInf else if sg < 0 then NegInf else NaN)"

fun jmul :: "number \<Rightarrow> number \<Rightarrow> number" where
  "jmul (Fin x) (Fin y) = toNumber (x * y)"
| "jmul NaN y = NaN"
| "jmul x NaN = NaN"
| "jmul x y = infinityOf (signOf x * signOf y)"

text \<open>
  A finite number divided by an infinity is a zero; an infinity divided by an
  infinity is \<open>NaN\<close>; a division by zero gives an infinity, or \<open>NaN\<close> for \<open>0 / 0\<close>.
\<close>

fun jdiv :: "number \<Rightarrow> number \<Rightarrow> number" where
  "jdiv (Fin x) (Fin y) = (if y = 0 then infinityOf (signOf (Fin x)) else toNumber (x / y))"
| "jdiv NaN y = NaN"
| "jdiv x NaN = NaN"
| "jdiv (Fin x) y = Fin 0"
| "jdiv x (Fin y) = infinityOf (signOf x * (if y < 0 then - 1 else 1))"
| "jdiv x y = NaN"

text \<open>The comparisons \<open><\<close> and \<open><=\<close>; both are false when an operand is \<open>NaN\<close>.\<close>

fun jlt :: "number \<Rightarrow> number \<Rightarrow> bool" where
  "jlt (Fin x) (Fin y) = (x < y)"
| "jlt NaN y = False"
| "jlt x NaN = False"
| "jlt PosInf y = False"
| "jlt x PosInf = True"
| "jlt NegInf y = (y \<noteq> NegInf)"
| "jlt x NegInf = False"

definition jle :: "number \<Rightarrow> number \<Rightarrow> bool" where
  "jle x y = (jlt x y \<or> (x = y \<and> x \<noteq> NaN))"

text \<open>\<open>Math.max\<close>, \<open>Math.min\<close> (\<open>NaN\<close> when an argument is \<open>NaN\<close>) and \<open>Math.floor\<close>.\<close>

definition jmax :: "number \<Rightarrow> number \<Rightarrow> number" where
  "jmax x y = (if x = NaN \<or> y = NaN then NaN else if jlt x y then y else x)"

definition jmin :: "number \<Rightarrow> number \<Rightarrow> number" where
  "jmin x y = (if x = NaN \<or> y = NaN then NaN else if jlt y x then y else x)"

fun jfloor :: "number \<Rightarrow> number" where
  "jfloor (Fin x) = Fin (of_int \<lfloor>x\<rfloor>)"
| "jfloor x = x"

text \<open>A number is falsy when it is zero or \<open>NaN\<close>; \<open>x || d\<close> is \<open>d\<close> for a falsy \<open>x\<close>.\<close>

fun truthy :: "number \<Rightarrow> bool" where
  "truthy (Fin x) = (x \<noteq> 0)"
| "truthy NaN = False"
| "truthy x = True"

definition jor :: "number \<Rightarrow> number \<Rightarrow> number" where
  "jor x d = (if truthy x then x else d)"

text \<open>\<open>m.get(k) || d\<close>: \<open>d\<close> replaces both a missing entry and a falsy one.\<close>

definition get_or :: "number option \<Rightarrow> number \<Rightarrow> number" where
  "get_or r d = (case r of None \<Rightarrow> d | Some x \<Rightarrow> jor x d)"

text \<open>
  How often \<open>for (let i = 0; i < bound; i++)\<close> runs its body when the bound is not
  the positive infinity: once for every whole number from 0 that is below the bound,
  and never when the bound is \<open>NaN\<close>.
\<close>

fun iterations :: "number \<Rightarrow> nat" where
  "iterations (Fin b) = nat \<lceil>b\<rceil>"
| "iterations x = 0"

section \<open>Data model (core/types.ts)\<close>

text \<open>
  A JavaScript \<open>Map\<close> is an association list in insertion order: \<open>get\<close> is
  \<open>map_of\<close>, \<open>set\<close> is \<open>AList.update\<close> (overwrite in place, else append) and
  \<open>delete\<close> is \<open>AList.delete\<close>. Reads of the clock and of the random generator
  are parameters.
\<close>

datatype deviceType = DESKTOP | MOBILE | COLAB | SERVER

datatype jobType = MATH_STRESS | MAT_MUL | TEXT_TOKENIZE

datatype deviceConnectionStatus = OFFLINE | ONLINE | BUSY | DISABLED | REGISTERED

record deviceCapabilities =
  cpuCores :: number
  memoryGB :: number
  gpuAvailable :: bool
  gpuName :: "string option"

record deviceInfo =
  id_device :: string
  name :: string
  type_device :: deviceType
  status :: deviceConnectionStatus
  capabilities :: deviceCapabilities
  opsScore :: number
  totalJobsCompleted :: int
  lastHeartbeat :: int
  lastUserInteraction :: "int option"
  swarmId :: "string option"

datatype jobData = Size int | Iterations int

record job =
  id_job :: string
  type_job :: jobType
  complexity :: int
  data :: jobData

text \<open>The operator \<open>x || d\<close> on a whole-number counter.\<close>

definition num_or :: "int \<Rightarrow> int \<Rightarrow> int" where
  "num_or x d = (if x = 0 then d else x)"

section \<open>JobScheduler (managers/JobScheduler.ts)\<close>

record deviceJobQuota =
  deviceId :: string
  weight :: number
  activeJobs :: number
  maxConcurrent :: number

record scheduler =
  jobQueue :: "job list"
  deviceQuotas :: "(string \<times> deviceJobQuota) list"
  deviceWeights :: "(string \<times> number) list"
  totalWeight :: number

definition MAX_QUEUE_SIZE :: nat where
  "MAX_QUEUE_SIZE = 5000"

definition newScheduler :: scheduler where
  "newScheduler = \<lparr>jobQueue = [], deviceQuotas = [], deviceWeights = [], totalWeight = Fin 0\<rparr>"

text \<open>
  One iteration of the loop of \<open>generateJobs\<close> draws \<open>Math.random()\<close> three times
  and reads the clock once; a \<open>jobDraw\<close> holds what was drawn: the number compared
  with 0.7, the identifier built from clock and random suffix, and the number that
  becomes the complexity. \<open>Math.random()\<close> is a finite double.
\<close>

record jobDraw =
  draw_kind :: rat
  draw_id :: string
  draw_complexity :: rat

definition drawnJob :: "jobDraw \<Rightarrow> job" where
  "drawnJob r =
     (let isGpuTask = draw_kind r > binary64 (7 / 10)
      in \<lparr>id_job = draw_id r,
          type_job = (if isGpuTask then MAT_MUL else MATH_STRESS),
          complexity = \<lfloor>binary64 (draw_complexity r * 10)\<rfloor> + 1,
          data = (if isGpuTask then Size 1024 else Iterations 100000)\<rparr>)"

definition generateJobs :: "(nat \<Rightarrow> jobDraw) \<Rightarrow> scheduler \<Rightarrow> scheduler" where
  "generateJobs draws s =
     (if length (jobQueue s) > MAX_QUEUE_SIZE then s
      else s\<lparr>jobQueue := jobQueue s @ map (\<lambda>i. drawnJob (draws i)) [0..<100]\<rparr>)"

definition calculateWeight :: "deviceInfo \<Rightarrow> number" where
  "calculateWeight device =
     (let cpu = jmul (jor (cpuCores (capabilities device)) (Fin 4)) (Fin 10);
          gpu = (if gpuAvailable (capabilities device) then Fin 50 else Fin 0);
          score = jmin (jdiv (jor (opsScore device) (Fin 0)) (Fin 1000)) (Fin 100)
      in jmax (Fin 1) (jadd (jadd cpu gpu) score))"

definition registerDevice :: "deviceInfo \<Rightarrow> scheduler \<Rightarrow> scheduler" where
  "registerDevice device s =
     (let weight = calculateWeight device;
          old = get_or (map_of (deviceWeights s) (id_device device)) (Fin 0)
      in s\<lparr>totalWeight := jadd (totalWeight s) (jsub weight old),
           deviceWeights := AList.update (id_device device) weight (deviceWeights s),
           deviceQuotas := AList.update (id_device device)
             \<lparr>deviceId = id_device device,
              weight = weight,
              activeJobs = Fin 0,
              maxConcurrent =
                jmax (Fin 10) (jmul (jor (cpuCores (capabilities device)) (Fin 4)) (Fin 4))\<rparr>
             (deviceQuotas s)\<rparr>)"

text \<open>\<open>Array.prototype.findIndex\<close>: the first index whose element passes, else \<open>-1\<close>.\<close>

fun findIndex :: "('a \<Rightarrow> bool) \<Rightarrow> 'a list \<Rightarrow> int" where
  "findIndex P [] = - 1"
| "findIndex P (x # xs) =
     (if P x then 0
      else (let r = findIndex P xs in if r = - 1 then - 1 else r + 1))"

text \<open>\<open>queue.splice(idx, 1)\<close> for an index inside the queue: what is left of it.\<close>

definition splice1 :: "nat \<Rightarrow> 'a list \<Rightarrow> 'a list" where
  "splice1 idx xs = take idx xs @ drop (Suc idx) xs"

text \<open>
  The body of the \<open>for\<close> loop of \<open>getJobBatchForDevice\<close>, run for the given number
  of iterations on the queue, the batch and the quota's active-job counter.
\<close>

fun takeJobs :: "nat \<Rightarrow> jobType \<Rightarrow> job list \<Rightarrow> job list \<Rightarrow> number
    \<Rightarrow> job list \<times> job list \<times> number" where
  "takeJobs 0 preferred queue batch active = (batch, queue, active)"
| "takeJobs (Suc n) preferred queue batch active =
     (let found = findIndex (\<lambda>j. type_job j = preferred) queue;
          idx = (if found = - 1 then 0 else found)
      in if idx < int (length queue)
         then takeJobs n preferred (splice1 (nat idx) queue)
                (batch @ [queue ! nat idx]) (jadd active (Fin 1))
         else takeJobs n preferred queue batch active)"

definition preferredKind :: "deviceInfo \<Rightarrow> jobType" where
  "preferredKind device = (if gpuAvailable (capabilities device) then MAT_MUL else MATH_STRESS)"

text \<open>\<open>quota.maxConcurrent - quota.activeJobs\<close>.\<close>

definition availableSlots :: "deviceJobQuota \<Rightarrow> number" where
  "availableSlots quota = jsub (maxConcurrent quota) (activeJobs quota)"

text \<open>
  \<open>Math.max(1, Math.floor((weight / Math.max(1, this.totalWeight)) * requestedCount * 3))\<close>:
  a division and two multiplications, each rounded.
\<close>

definition shareOf :: "scheduler \<Rightarrow> deviceInfo \<Rightarrow> number \<Rightarrow> number" where
  "shareOf s device requestedCount =
     (let weight = get_or (map_of (deviceWeights s) (id_device device)) (Fin 1)
      in jmax (Fin 1)
           (jfloor (jmul (jmul (jdiv weight (jmax (Fin 1) (totalWeight s))) requestedCount)
                      (Fin 3))))"

text \<open>
  \<open>Math.min(share, availableSlots, this.jobQueue.length)\<close> is at most the length of
  the queue, or \<open>NaN\<close>, so the loop is bounded.
\<close>

definition batchSizeOf :: "scheduler \<Rightarrow> deviceInfo \<Rightarrow> number \<Rightarrow> deviceJobQuota \<Rightarrow> number" where
  "batchSizeOf s device requestedCount quota =
     jmin (shareOf s device requestedCount)
       (jmin (availableSlots quota) (Fin (of_nat (length (jobQueue s)))))"

function getJobBatchForDevice :: "deviceInfo \<Rightarrow> number \<Rightarrow> scheduler \<Rightarrow> job list \<times> scheduler" where
  "getJobBatchForDevice device requestedCount s =
     (case map_of (deviceQuotas s) (id_device device) of
        None \<Rightarrow> getJobBatchForDevice device requestedCount (registerDevice device s)
      | Some quota \<Rightarrow>
          if jle (availableSlots quota) (Fin 0) then ([], s)
          else
            (let batchSize = batchSizeOf s device requestedCount quota;
                 (batch, queue, active) =
                    takeJobs (iterations batchSize) (preferredKind device) (jobQueue s) []
                      (activeJobs quota)
             in (batch,
                 s\<lparr>jobQueue := queue,
                   deviceQuotas := AList.update (id_device device)
                     (quota\<lparr>activeJobs := active\<rparr>) (deviceQuotas s)\<rparr>)))"
  by pat_completeness auto
termination
  by (relation "measure (\<lambda>(device, requestedCount, s).
        if map_of (deviceQuotas s) (id_device device) = None then 1 else 0)")
     (auto simp: registerDevice_def Let_def update_conv')

declare getJobBatchForDevice.simps [simp del]

definition releaseJobSlot :: "string \<Rightarrow> number option \<Rightarrow> scheduler \<Rightarrow> scheduler" where
  "releaseJobSlot device_id durationMs s =
     (case map_of (deviceQuotas s) device_id of
        None \<Rightarrow> s
      | Some quota \<Rightarrow>
          if jlt (Fin 0) (activeJobs quota)
          then (let q1 = quota\<lparr>activeJobs := jsub (activeJobs quota) (Fin 1)\<rparr>;
                    q2 = (case durationMs of
                            None \<Rightarrow> q1
                          | Some d \<Rightarrow>
                              if truthy d \<and> jlt (Fin 0) d
                              then (let latencyImpact =
                                          (if jlt (Fin 2000) d then Fin (binary64 (95 / 100))
                                           else Fin (binary64 (102 / 100)))
                                    in q1\<lparr>weight := jmul (weight q1) latencyImpact\<rparr>)
                              else q1)
                in s\<lparr>deviceQuotas := AList.update device_id q2 (deviceQuotas s)\<rparr>)
          else s)"

text \<open>A call of the scheduler, and a sequence of calls on a fresh scheduler.\<close>

datatype schedOp =
    RegisterDevice deviceInfo
  | GetJobBatch deviceInfo number
  | ReleaseJobSlot string "number option"
  | GenerateJobs "nat \<Rightarrow> jobDraw"

fun schedStep :: "schedOp \<Rightarrow> scheduler \<Rightarrow> scheduler" where
  "schedStep (RegisterDevice device) s = registerDevice device s"
| "schedStep (GetJobBatch device requestedCount) s = snd (getJobBatchForDevice device requestedCount s)"
| "schedStep (ReleaseJobSlot device_id durationMs) s = releaseJobSlot device_id durationMs s"
| "schedStep (GenerateJobs draws) s = generateJobs draws s"

definition run :: "schedOp list \<Rightarrow> scheduler" where
  "run ops = fold schedStep ops newScheduler"



text \<open>A whole number of magnitude at most \<open>2^53\<close>.\<close>

definition wholeNumber :: "rat \<Rightarrow> bool" where
  "wholeNumber x = (x = of_int \<lfloor>x\<rfloor> \<and> \<bar>x\<bar> \<le> 2 ^ 53)"




text \<open>
  The job one iteration of the selection loop removes from a non-empty queue, in the
  words of the selection policy: the first job of the preferred kind, else the oldest.
\<close>

definition selected :: "jobType \<Rightarrow> job list \<Rightarrow> job" where
  "selected preferred queue =
     (case find (\<lambda>j. type_job j = preferred) queue of Some j \<Rightarrow> j | None \<Rightarrow> hd queue)"

section \<open>DeviceManager (managers/AuthManager.ts)\<close>

definition OFFLINE_THRESHOLD :: int where
  "OFFLINE_THRESHOLD = 60000"

definition DELETE_THRESHOLD :: int where
  "DELETE_THRESHOLD = 300000"

text \<open>\<open>toLowerCase\<close> on the ASCII letters, and \<open>String.prototype.includes\<close>.\<close>

definition toLowerCase :: "string \<Rightarrow> string" where
  "toLowerCase str =
     map (\<lambda>c. if 65 \<le> (of_char c :: nat) \<and> (of_char c :: nat) \<le> 90
               then char_of (of_char c + 32 :: nat) else c) str"

fun includes_str :: "string \<Rightarrow> string \<Rightarrow> bool" where
  "includes_str [] sub = (sub = [])"
| "includes_str (c # cs) sub = (take (length sub) (c # cs) = sub \<or> includes_str cs sub)"

text \<open>
  \<open>register\<close> reads the clock twice (\<open>now1\<close>, \<open>now2\<close>); \<open>heartbeat\<close> and
  \<open>cleanup\<close> read it once.
\<close>

definition register :: "string \<Rightarrow> string \<Rightarrow> deviceCapabilities \<Rightarrow> string \<Rightarrow> int \<Rightarrow> int
    \<Rightarrow> (string \<times> deviceInfo) list \<Rightarrow> (string \<times> deviceInfo) list" where
  "register ident nm caps swarm now1 now2 devices =
     (let existing = map_of devices ident;
          ty = (if includes_str (toLowerCase nm) ''mobile'' then MOBILE
                else if includes_str (toLowerCase nm) ''colab'' then COLAB
                else if gpuAvailable caps \<and> jlt (Fin 16) (memoryGB caps) then SERVER
                else DESKTOP)
      in AList.update ident
           \<lparr>id_device = ident,
            name = nm,
            type_device = ty,
            status = ONLINE,
            capabilities = caps,
            opsScore = (case existing of None \<Rightarrow> Fin 0 | Some e \<Rightarrow> jor (opsScore e) (Fin 0)),
            totalJobsCompleted =
              (case existing of None \<Rightarrow> 0 | Some e \<Rightarrow> num_or (totalJobsCompleted e) 0),
            lastHeartbeat = now1,
            lastUserInteraction = Some now2,
            swarmId = Some swarm\<rparr>
           devices)"

text \<open>
  The optional argument of \<open>heartbeat\<close> is an object with the field
  \<open>lastInteraction\<close>; it is modelled by that field.
\<close>

definition heartbeat :: "string \<Rightarrow> int option \<Rightarrow> int
    \<Rightarrow> (string \<times> deviceInfo) list \<Rightarrow> (string \<times> deviceInfo) list" where
  "heartbeat ident lastInteraction now devices =
     (case map_of devices ident of
        None \<Rightarrow> devices
      | Some device \<Rightarrow>
          (let d1 = device\<lparr>lastHeartbeat := now\<rparr>;
               d2 = (case lastInteraction of
                       None \<Rightarrow> d1
                     | Some t \<Rightarrow> if t \<noteq> 0 then d1\<lparr>lastUserInteraction := Some t\<rparr> else d1);
               d3 = (if status d2 = OFFLINE \<or> status d2 = REGISTERED
                     then d2\<lparr>status := ONLINE\<rparr> else d2)
           in AList.update ident d3 devices))"

definition toggleDevice :: "string \<Rightarrow> bool
    \<Rightarrow> (string \<times> deviceInfo) list \<Rightarrow> (string \<times> deviceInfo) list" where
  "toggleDevice ident enabled devices =
     (case map_of devices ident of
        None \<Rightarrow> devices
      | Some device \<Rightarrow>
          AList.update ident (device\<lparr>status := (if enabled then ONLINE else DISABLED)\<rparr>) devices)"

definition updateScore :: "string \<Rightarrow> number
    \<Rightarrow> (string \<times> deviceInfo) list \<Rightarrow> (string \<times> deviceInfo) list" where
  "updateScore ident score devices =
     (case map_of devices ident of
        None \<Rightarrow> devices
      | Some device \<Rightarrow> AList.update ident (device\<lparr>opsScore := score\<rparr>) devices)"

definition remove :: "string \<Rightarrow> (string \<times> deviceInfo) list \<Rightarrow> (string \<times> deviceInfo) list" where
  "remove ident devices = AList.delete ident devices"

text \<open>
  The body of \<open>cleanup\<close> is a \<open>forEach\<close> over the entries of the map, which deletes
  from and writes to the map it walks: the first list holds the entries still to visit,
  the second is the map.
\<close>

fun cleanupEntries :: "int \<Rightarrow> (string \<times> deviceInfo) list
    \<Rightarrow> (string \<times> deviceInfo) list \<Rightarrow> (string \<times> deviceInfo) list" where
  "cleanupEntries now [] devices = devices"
| "cleanupEntries now ((ident, device) # rest) devices =
     cleanupEntries now rest
       (let diff = now - lastHeartbeat device
        in if diff > DELETE_THRESHOLD then AList.delete ident devices
           else if status device \<noteq> DISABLED \<and> diff > OFFLINE_THRESHOLD
           then AList.update ident (device\<lparr>status := OFFLINE\<rparr>) devices
           else devices)"

definition cleanup :: "int \<Rightarrow> (string \<times> deviceInfo) list \<Rightarrow> (string \<times> deviceInfo) list" where
  "cleanup now devices = cleanupEntries now devices devices"

text \<open>A call of the device manager that changes the registry.\<close>

datatype deviceOp =
    Register string string deviceCapabilities string int int
  | Heartbeat string "int option" int
  | ToggleDevice string bool
  | UpdateScore string number
  | Remove string
  | Cleanup int

fun deviceStep :: "deviceOp \<Rightarrow> (string \<times> deviceInfo) list \<Rightarrow> (string \<times> deviceInfo) list" where
  "deviceStep (Register ident nm caps swarm now1 now2) devices =
     register ident nm caps swarm now1 now2 devices"
| "deviceStep (Heartbeat ident lastInteraction now) devices =
     heartbeat ident lastInteraction now devices"
| "deviceStep (ToggleDevice ident enabled) devices = toggleDevice ident enabled devices"
| "deviceStep (UpdateScore ident score) devices = updateScore ident score devices"
| "deviceStep (Remove ident) devices = remove ident devices"
| "deviceStep (Cleanup now) devices = cleanup now devices"

fun heartbeatOrSweep :: "deviceOp \<Rightarrow> bool" where
  "heartbeatOrSweep (Heartbeat ident lastInteraction now) = True"
| "heartbeatOrSweep (Cleanup now) = True"
| "heartbeatOrSweep other = False"

text \<open>The status of a device of the registry, if the registry has it.\<close>

definition statusOf :: "(string \<times> deviceInfo) list \<Rightarrow> string \<Rightarrow> deviceConnectionStatus option" where
  "statusOf devices ident = map_option status (map_of devices ident)"

section \<open>AuthManager (managers/AuthManager.ts)\<close>

record tokenData =
  token_swarmId :: string
  expiresAt :: int

record authManager =
  activeTokens :: "(string \<times> tokenData) list"
  tokenGenerationLog :: "(string \<times> int list) list"

definition TOKEN_TTL_MS :: int where
  "TOKEN_TTL_MS = 24 * 60 * 60 * 1000"

definition newAuthManager :: authManager where
  "newAuthManager = \<lparr>activeTokens = [], tokenGenerationLog = []\<rparr>"

text \<open>
  \<open>generateToken\<close> reads the clock twice (\<open>now\<close> for the rate limit, \<open>now2\<close> for
  the expiry) and draws the token text from the random generator (\<open>token\<close>).
\<close>

definition generateToken :: "string \<Rightarrow> int \<Rightarrow> int \<Rightarrow> string \<Rightarrow> authManager
    \<Rightarrow> string option \<times> authManager" where
  "generateToken swarm now now2 token a =
     (let generations0 = (case map_of (tokenGenerationLog a) swarm of None \<Rightarrow> [] | Some g \<Rightarrow> g);
          oneMinuteAgo = now - 60000;
          generations = filter (\<lambda>t. t > oneMinuteAgo) generations0
      in if length generations \<ge> 5 then (None, a)
         else (Some token,
               a\<lparr>tokenGenerationLog :=
                    AList.update swarm (generations @ [now]) (tokenGenerationLog a),
                 activeTokens :=
                    AList.update token \<lparr>token_swarmId = swarm, expiresAt = now2 + TOKEN_TTL_MS\<rparr>
                      (activeTokens a)\<rparr>))"

text \<open>
  A sequence of calls of \<open>generateToken\<close>, each with its swarm, its two clock readings
  and its token text; the replies are returned in order.
\<close>

fun generateTokens :: "(string \<times> int \<times> int \<times> string) list \<Rightarrow> authManager
    \<Rightarrow> string option list \<times> authManager" where
  "generateTokens [] a = ([], a)"
| "generateTokens ((swarm, now, now2, token) # calls) a =
     (let (reply, a1) = generateToken swarm now now2 token a;
          (replies, a2) = generateTokens calls a1
      in (reply # replies, a2))"

text \<open>The issuance times of a swarm that lie in the 60 seconds before \<open>now\<close>.\<close>

definition recentIssuances :: "authManager \<Rightarrow> string \<Rightarrow> int \<Rightarrow> int list" where
  "recentIssuances a swarm now =
     filter (\<lambda>t. t > now - 60000)
       (case map_of (tokenGenerationLog a) swarm of None \<Rightarrow> [] | Some g \<Rightarrow> g)"

section \<open>SwarmCoordinator (SwarmCoordinator.ts): the copies over durable storage\<close>

text \<open>
  The coordinator repeats the scheduler on the keys of its storage: \<open>job:queue\<close>,
  one \<open>quota:<id>\<close> per device and the map \<open>scheduler:weights\<close>. A key that was
  never written reads as \<open>undefined\<close>, here \<open>None\<close>. Its handlers for devices
  (\<open>handleRegister\<close>, \<open>handleHeartbeat\<close>, \<open>handleToggleDevice\<close>, \<open>cleanup\<close>) are
  the statements of the device manager on the keys \<open>device:<id>\<close>.
\<close>

record coordinator =
  queue_store :: "job list option"
  quota_store :: "(string \<times> deviceJobQuota) list"
  weights_store :: "(string \<times> number) list option"

text \<open>\<open>(await storage.get(key)) || []\<close> and \<open>|| new Map()\<close>.\<close>

definition stored :: "'a list option \<Rightarrow> 'a list" where
  "stored r = (case r of None \<Rightarrow> [] | Some xs \<Rightarrow> xs)"

definition registerDeviceInScheduler :: "deviceInfo \<Rightarrow> coordinator \<Rightarrow> coordinator" where
  "registerDeviceInScheduler device st =
     (let weight = calculateWeight device;
          quota = \<lparr>deviceId = id_device device,
                   weight = weight,
                   activeJobs = Fin 0,
                   maxConcurrent =
                     jmax (Fin 10)
                       (jmul (jor (cpuCores (capabilities device)) (Fin 4)) (Fin 4))\<rparr>;
          st1 = st\<lparr>quota_store := AList.update (id_device device) quota (quota_store st)\<rparr>;
          weights = stored (weights_store st1)
      in st1\<lparr>weights_store := Some (AList.update (id_device device) weight weights)\<rparr>)"

definition releaseJobSlot_stored :: "string \<Rightarrow> number option \<Rightarrow> coordinator \<Rightarrow> coordinator" where
  "releaseJobSlot_stored device_id durationMs st =
     (case map_of (quota_store st) device_id of
        None \<Rightarrow> st
      | Some quota \<Rightarrow>
          if jlt (Fin 0) (activeJobs quota)
          then (let q1 = quota\<lparr>activeJobs := jsub (activeJobs quota) (Fin 1)\<rparr>;
                    q2 = (case durationMs of
                            None \<Rightarrow> q1
                          | Some d \<Rightarrow>
                              if truthy d \<and> jlt (Fin 0) d
                              then (let latencyImpact =
                                          (if jlt (Fin 2000) d then Fin (binary64 (95 / 100))
                                           else Fin (binary64 (102 / 100)))
                                    in q1\<lparr>weight := jmul (weight q1) latencyImpact\<rparr>)
                              else q1)
                in st\<lparr>quota_store := AList.update device_id q2 (quota_store st)\<rparr>)
          else st)"

text \<open>
  \<open>handleGenerateToken\<close>: the rate limit under the key \<open>ratelimit:<swarmId>\<close>, the
  tokens under \<open>token:<code>\<close>; the reply is the token, or the empty string.
\<close>

definition handleGenerateToken :: "string \<Rightarrow> int \<Rightarrow> string \<Rightarrow> authManager
    \<Rightarrow> string \<times> authManager" where
  "handleGenerateToken swarm now token st =
     (let generations = stored (map_of (tokenGenerationLog st) swarm);
          oneMinuteAgo = now - 60000;
          recent = filter (\<lambda>t. t > oneMinuteAgo) generations
      in if length recent \<ge> 5 then ([], st)
         else (token,
               st\<lparr>tokenGenerationLog := AList.update swarm (recent @ [now]) (tokenGenerationLog st),
                  activeTokens :=
                    AList.update token
                      \<lparr>token_swarmId = swarm, expiresAt = now + 24 * 60 * 60 * 1000\<rparr>
                      (activeTokens st)\<rparr>))"

section \<open>Example values\<close>

definition caps4 :: deviceCapabilities where
  "caps4 = \<lparr>cpuCores = Fin 4, memoryGB = Fin 8, gpuAvailable = False, gpuName = None\<rparr>"

definition capsGpu :: deviceCapabilities where
  "capsGpu = \<lparr>cpuCores = Fin 8, memoryGB = Fin 32, gpuAvailable = True, gpuName = Some ''gpu''\<rparr>"

definition deviceD :: deviceInfo where
  "deviceD = \<lparr>id_device = ''D'', name = ''laptop'', type_device = DESKTOP, status = ONLINE,
     capabilities = caps4, opsScore = Fin 0, totalJobsCompleted = 0, lastHeartbeat = 1000,
     lastUserInteraction = Some 1000, swarmId = Some ''S''\<rparr>"

definition deviceG :: deviceInfo where
  "deviceG = \<lparr>id_device = ''G'', name = ''rig'', type_device = SERVER, status = ONLINE,
     capabilities = capsGpu, opsScore = Fin 25000, totalJobsCompleted = 0, lastHeartbeat = 1000,
     lastUserInteraction = Some 1000, swarmId = Some ''S''\<rparr>"

text \<open>A device that reports 2.6 cores (the double nearest to 2.6).\<close>

definition deviceF :: deviceInfo where
  "deviceF = deviceD\<lparr>id_device := ''F'',
     capabilities := caps4\<lparr>cpuCores := Fin (binary64 (26 / 10))\<rparr>\<rparr>"



text \<open>A device whose core count is beyond the doubles (\<open>1e999\<close> in a message).\<close>

definition deviceInf :: deviceInfo where
  "deviceInf = deviceG\<lparr>id_device := ''I'', capabilities := capsGpu\<lparr>cpuCores := PosInf\<rparr>\<rparr>"

definition jobA :: job where
  "jobA = \<lparr>id_job = ''A'', type_job = MATH_STRESS, complexity = 3, data = Iterations 100000\<rparr>"

definition jobB :: job where
  "jobB = \<lparr>id_job = ''B'', type_job = MAT_MUL, complexity = 5, data = Size 1024\<rparr>"

definition quotaD3 :: deviceJobQuota where
  "quotaD3 = \<lparr>deviceId = ''D'', weight = Fin 40, activeJobs = Fin 3, maxConcurrent = Fin 16\<rparr>"

definition busyScheduler :: scheduler where
  "busyScheduler =
     \<lparr>jobQueue = [jobA, jobB],
      deviceQuotas = [(''D'', quotaD3)],
      deviceWeights = [(''D'', Fin 40)],
      totalWeight = Fin 40\<rparr>"

definition exampleDraws :: "nat \<Rightarrow> jobDraw" where
  "exampleDraws i = \<lparr>draw_kind = 1 / 2, draw_id = ''job'', draw_complexity = 1 / 4\<rparr>"


definition overshootOps :: "schedOp list" where
  "overshootOps = [RegisterDevice deviceF, GenerateJobs exampleDraws]"


definition queueAB :: scheduler where
  "queueAB = newScheduler\<lparr>jobQueue := [jobA, jobB]\<rparr>"

definition twoDevicesAB :: scheduler where
  "twoDevicesAB = registerDevice deviceD (registerDevice deviceG queueAB)"

definition exampleRegistry :: "(string \<times> deviceInfo) list" where
  "exampleRegistry =
     [(''old'', deviceD\<lparr>id_device := ''old'', lastHeartbeat := 600000\<rparr>),
      (''quiet'', deviceD\<lparr>id_device := ''quiet'', lastHeartbeat := 900000\<rparr>),
      (''off'', deviceG\<lparr>id_device := ''off'', status := DISABLED, lastHeartbeat := 900000\<rparr>),
      (''live'', deviceG\<lparr>id_device := ''live'', lastHeartbeat := 995000\<rparr>)]"

definition sweepOps :: "deviceOp list" where
  "sweepOps =
     [Heartbeat ''off'' None 950000, Cleanup 1000000, Heartbeat ''quiet'' (Some 5) 1000100,
      Cleanup 1100000, Heartbeat ''off'' (Some 7) 1100001]"

definition sixCalls :: "(string \<times> int \<times> int \<times> string) list" where
  "sixCalls =
     [(''S'', 1000, 1000, ''AAAAAA''), (''S'', 2000, 2000, ''BBBBBB''),
      (''S'', 3000, 3000, ''CCCCCC''), (''S'', 4000, 4000, ''DDDDDD''),
      (''S'', 5000, 5000, ''EEEEEE''), (''S'', 6000, 6000, ''FFFFFF''),
      (''S'', 61000, 61000, ''GGGGGG'')]"

definition exampleOps :: "schedOp list" where
  "exampleOps =
     [RegisterDevice deviceD, GenerateJobs exampleDraws, GetJobBatch deviceD (Fin 10),
      ReleaseJobSlot ''D'' (Some (Fin 2500))]"

section \<open>Rounding to a double\<close>

lemma roundHalfEven_of_int: "roundHalfEven (of_int j) = j"
  by (simp add: roundHalfEven_def)



lemma inv_le: "0 < x \<Longrightarrow> 0 < K \<Longrightarrow> 1 / x \<le> K \<Longrightarrow> 1 / K \<le> (x::rat)"
  by (simp add: field_simps)

lemma inv_less: "0 < x \<Longrightarrow> 0 < K \<Longrightarrow> K < 1 / x \<Longrightarrow> x < 1 / (K::rat)"
  by (simp add: field_simps)

lemma powi2_nat: "0 \<le> a \<Longrightarrow> (2::rat) powi a = of_int (2 ^ nat a)"
  by (simp add: power_int_def)

lemma powi2_neg: "0 \<le> a \<Longrightarrow> (2::rat) powi (- a) = 1 / of_int (2 ^ nat a)"
  by (simp add: power_int_minus powi2_nat inverse_eq_divide)

lemma floorLog2_ge1:
  assumes "1 \<le> x"
  shows "2 powi (floorLog2 x) \<le> x \<and> x < 2 powi (floorLog2 x + 1)"
proof -
  define n where "n = \<lfloor>x\<rfloor>"
  from assms have n: "0 < n" by (simp add: n_def)
  define b where "b = bitlen n"
  from bitlen_bounds [OF n] have b1: "2 ^ nat (b - 1) \<le> n" and b2: "n < 2 ^ nat b"
    by (simp_all add: b_def)
  from n have bl: "1 \<le> b" by (simp add: b_def bitlen_alt_def)
  have L: "floorLog2 x = b - 1" using assms by (simp add: floorLog2_def b_def n_def)
  have p1: "(2::rat) powi (b - 1) = of_int (2 ^ nat (b - 1))" using bl by (intro powi2_nat) simp
  have p2: "(2::rat) powi (b - 1 + 1) = of_int (2 ^ nat b)" using bl powi2_nat [of b] by simp
  have "(of_int (2 ^ nat (b - 1)) :: rat) \<le> of_int n" using b1 by (simp only: of_int_le_iff)
  also have "\<dots> \<le> x" unfolding n_def by (rule of_int_floor_le)
  finally have lo: "(2::rat) powi (floorLog2 x) \<le> x" by (simp only: L p1)
  from b2 have "n + 1 \<le> 2 ^ nat b" by simp
  then have "(of_int (n + 1) :: rat) \<le> of_int (2 ^ nat b)" by (simp only: of_int_le_iff)
  moreover have "x < of_int (n + 1)" unfolding n_def using floor_correct [of x] by (rule conjunct2)
  ultimately have "x < of_int (2 ^ nat b)" by (rule less_le_trans [rotated])
  then have hi: "x < (2::rat) powi (floorLog2 x + 1)" by (simp only: L p2)
  from lo hi show ?thesis ..
qed

lemma floorLog2_lt1:
  assumes "0 < x" and "\<not> 1 \<le> x"
  shows "2 powi (floorLog2 x) \<le> x \<and> x < 2 powi (floorLog2 x + 1)"
proof -
  define y where "y = 1 / x"
  define c where "c = \<lceil>y\<rceil>"
  from assms have y1: "1 < y" by (simp add: y_def field_simps)
  then have c2: "2 \<le> c" unfolding c_def by (simp add: le_ceiling_iff)
  then have pos: "0 < c - 1" by simp
  define k where "k = bitlen (c - 1)"
  from bitlen_bounds [OF pos] have b1: "2 ^ nat (k - 1) \<le> c - 1" and b2: "c - 1 < 2 ^ nat k"
    by (simp_all add: k_def)
  from pos have k1: "1 \<le> k" by (simp add: k_def bitlen_alt_def)
  have L: "floorLog2 x = - k" using assms by (simp add: floorLog2_def k_def c_def y_def)
  have yc: "y \<le> of_int c" unfolding c_def by (rule le_of_int_ceiling)
  from b2 have "c \<le> 2 ^ nat k" by simp
  then have "(of_int c :: rat) \<le> of_int (2 ^ nat k)" by (simp only: of_int_le_iff)
  with yc have yk: "1 / x \<le> of_int (2 ^ nat k)" unfolding y_def by (rule order_trans)
  have cy: "of_int (c - 1) < y" unfolding c_def using ceiling_correct [of y] by simp
  have "(of_int (2 ^ nat (k - 1)) :: rat) \<le> of_int (c - 1)" using b1 by (simp only: of_int_le_iff)
  with cy have ky: "of_int (2 ^ nat (k - 1)) < 1 / x" unfolding y_def by (rule le_less_trans [rotated])
  have K0: "(0::rat) < of_int (2 ^ nat k)" "(0::rat) < of_int (2 ^ nat (k - 1))" by simp_all
  have p1: "(2::rat) powi (- k) = 1 / of_int (2 ^ nat k)" using k1 by (intro powi2_neg) simp
  have "(2::rat) powi (- (k - 1)) = 1 / of_int (2 ^ nat (k - 1))" using k1 by (intro powi2_neg) simp
  then have p2: "(2::rat) powi (- k + 1) = 1 / of_int (2 ^ nat (k - 1))" by simp
  have lo: "(2::rat) powi (floorLog2 x) \<le> x"
    unfolding L p1 by (rule inv_le [OF assms(1) K0(1) yk])
  have hi: "x < (2::rat) powi (floorLog2 x + 1)"
    unfolding L p2 by (rule inv_less [OF assms(1) K0(2) ky])
  from lo hi show ?thesis ..
qed

lemma floorLog2_bounds:
  "0 < x \<Longrightarrow> 2 powi (floorLog2 x) \<le> x \<and> x < 2 powi (floorLog2 x + 1)"
  by (cases "1 \<le> x") (simp_all only: floorLog2_ge1 floorLog2_lt1 simp_thms)

lemma powi2_less_imp:
  assumes "(2::rat) powi a < 2 powi b"
  shows "a < b"
proof (rule ccontr)
  assume "\<not> a < b"
  then have "b \<le> a" by simp
  then have "(2::rat) powi b \<le> 2 powi a" by (intro power_int_increasing) simp_all
  with assms show False by simp
qed

lemma binary64_representable:
  assumes m: "\<bar>m\<bar> < 2 ^ 53" and k: "- 1074 \<le> k"
  shows "binary64 (of_int m * 2 powi k) = of_int m * 2 powi k"
proof (cases "m = 0")
  case True
  then show ?thesis by (simp add: binary64_def)
next
  case False
  define x :: rat where "x = of_int m * 2 powi k"
  have p: "(0::rat) < 2 powi k" by simp
  have x0: "x \<noteq> 0" using False by (simp add: x_def)
  have ax: "\<bar>x\<bar> = of_int \<bar>m\<bar> * 2 powi k" by (simp add: x_def abs_mult)
  have pos: "0 < \<bar>x\<bar>" using x0 by simp
  define L where "L = floorLog2 \<bar>x\<bar>"
  from floorLog2_bounds [OF pos] have lo: "2 powi L \<le> \<bar>x\<bar>" by (simp add: L_def)
  have "(of_int \<bar>m\<bar> :: rat) < of_int (2 ^ 53)" using m by (simp only: of_int_less_iff)
  then have "of_int \<bar>m\<bar> * 2 powi k < (of_int (2 ^ 53) :: rat) * 2 powi k"
    using p by (rule mult_strict_right_mono)
  also have "(of_int (2 ^ 53) :: rat) * 2 powi k = 2 powi (53 + k)"
    by (simp add: power_int_add)
  finally have "\<bar>x\<bar> < 2 powi (53 + k)" by (simp only: ax)
  with lo have "(2::rat) powi L < 2 powi (53 + k)" by (rule le_less_trans)
  then have "L < 53 + k" by (rule powi2_less_imp)
  define e where "e = max (L - 52) (- 1074)"
  from \<open>L < 53 + k\<close> k have e: "e \<le> k" by (simp add: e_def)
  have pd: "(2::rat) powi (k - e) = 2 powi k / 2 powi e" by (simp add: power_int_diff)
  have pn: "(2::rat) powi (k - e) = 2 ^ nat (k - e)" using e by (simp add: power_int_def)
  have q: "x / 2 powi e = of_int (m * 2 ^ nat (k - e))"
  proof -
    have "x / 2 powi e = of_int m * (2 powi k / 2 powi e)" by (simp add: x_def)
    also have "\<dots> = of_int m * 2 ^ nat (k - e)" by (simp only: pd [symmetric] pn)
    finally show ?thesis by simp
  qed
  have pe: "(2::rat) powi e \<noteq> 0" by simp
  have "binary64 x = of_int (roundHalfEven (x / 2 powi e)) * 2 powi e"
    using x0 by (simp add: binary64_def Let_def e_def L_def)
  also have "\<dots> = of_int (m * 2 ^ nat (k - e)) * 2 powi e"
    by (simp only: q roundHalfEven_of_int)
  also have "\<dots> = x / 2 powi e * 2 powi e" by (simp only: q)
  also have "\<dots> = x" using pe by simp
  finally show ?thesis by (simp only: x_def)
qed

lemma binary64_zero: "binary64 0 = 0"
  by (simp add: binary64_def)

lemma binary64_scaled:
  assumes m: "\<bar>m\<bar> \<le> 2 ^ 53" and k: "- 1074 \<le> k"
  shows "binary64 (of_int m * 2 powi k) = of_int m * 2 powi k"
proof (cases "\<bar>m\<bar> < 2 ^ 53")
  case True
  then show ?thesis using k by (rule binary64_representable)
next
  case False
  with m have "\<bar>m\<bar> = 2 ^ 53" by simp
  then have "m = 2 ^ 53 \<or> m = - (2 ^ 53)" by linarith
  then obtain h where h: "m = 2 * h" and hb: "\<bar>h\<bar> < 2 ^ 53"
  proof
    assume "m = 2 ^ 53"
    then have "m = 2 * 2 ^ 52" "\<bar>(2::int) ^ 52\<bar> < 2 ^ 53" by simp_all
    then show ?thesis by (rule that)
  next
    assume "m = - (2 ^ 53)"
    then have "m = 2 * (- (2 ^ 52))" "\<bar>- ((2::int) ^ 52)\<bar> < 2 ^ 53" by simp_all
    then show ?thesis by (rule that)
  qed
  have "(2::rat) powi (k + 1) = 2 powi k * 2" by (simp add: power_int_add)
  then have eq: "of_int m * (2::rat) powi k = of_int h * 2 powi (k + 1)" by (simp add: h)
  from k have k1: "- 1074 \<le> k + 1" by simp
  show ?thesis unfolding eq by (rule binary64_representable [OF hb k1])
qed

lemma binary64_of_int:
  assumes "\<bar>n\<bar> \<le> 2 ^ 53"
  shows "binary64 (of_int n) = of_int n"
  using binary64_scaled [OF assms, of 0] by simp


lemma binary64_whole: "wholeNumber x \<Longrightarrow> binary64 x = x"
proof -
  assume w: "wholeNumber x"
  then have x: "x = of_int \<lfloor>x\<rfloor>" and b: "\<bar>x\<bar> \<le> 2 ^ 53" by (simp_all add: wholeNumber_def)
  from b have "\<bar>of_int \<lfloor>x\<rfloor> :: rat\<bar> \<le> of_int (2 ^ 53)" using x by simp
  then have "\<bar>\<lfloor>x\<rfloor>\<bar> \<le> 2 ^ 53" by (simp only: of_int_abs [symmetric] of_int_le_iff)
  from binary64_of_int [OF this] x show ?thesis by simp
qed

section \<open>Arithmetic on numbers\<close>

lemma floorLog2_small:
  assumes "\<bar>x\<bar> \<le> 2 ^ 53"
  shows "floorLog2 \<bar>x\<bar> < 1024"
proof (cases "x = 0")
  case True
  then show ?thesis by (simp add: floorLog2_def bitlen_def)
next
  case False
  then have pos: "0 < \<bar>x\<bar>" by simp
  from floorLog2_bounds [OF pos] have "2 powi floorLog2 \<bar>x\<bar> \<le> \<bar>x\<bar>" by simp
  also note assms
  also have "(2::rat) ^ 53 < 2 powi 54" by simp
  finally have "(2::rat) powi floorLog2 \<bar>x\<bar> < 2 powi 54" .
  then have "floorLog2 \<bar>x\<bar> < 54" by (rule powi2_less_imp)
  then show ?thesis by simp
qed

lemma toNumber_whole: "wholeNumber x \<Longrightarrow> toNumber x = Fin x"
proof -
  assume w: "wholeNumber x"
  then have "\<bar>x\<bar> \<le> 2 ^ 53" by (simp add: wholeNumber_def)
  from floorLog2_small [OF this] binary64_whole [OF w] show ?thesis
    by (simp add: toNumber_def Let_def)
qed




lemma jmax_one_cases:
  "jmax (Fin 1) y = NaN \<or> jmax (Fin 1) y = PosInf \<or> (\<exists>v. jmax (Fin 1) y = Fin v \<and> 1 \<le> v)"
  by (cases y) (auto simp: jmax_def)

lemma not_jle_zero_cases:
  "\<not> jle x (Fin 0) \<Longrightarrow> x = NaN \<or> x = PosInf \<or> (\<exists>v. x = Fin v \<and> 0 < v)"
  by (cases x) (auto simp: jle_def)

lemma iterations_jmin: "z \<noteq> PosInf \<Longrightarrow> iterations (jmin x z) \<le> iterations z"
  by (cases x; cases z) (auto simp: jmin_def intro!: nat_mono ceiling_mono)

lemma jmin_Fin_not_PosInf: "jmin y (Fin l) \<noteq> PosInf"
  by (cases y) (auto simp: jmin_def)

lemma iterations_bounded: "iterations (jmin x (jmin y (Fin (of_nat l)))) \<le> l"
proof -
  have "iterations (jmin x (jmin y (Fin (of_nat l)))) \<le> iterations (jmin y (Fin (of_nat l)))"
    by (rule iterations_jmin [OF jmin_Fin_not_PosInf])
  also have "\<dots> \<le> iterations (Fin (of_nat l))" by (rule iterations_jmin) simp
  also have "\<dots> = l" by simp
  finally show ?thesis .
qed

lemma jmin_not_PosInf: "jmin x (jmin y (Fin l)) \<noteq> PosInf"
  by (cases x; cases y) (auto simp: jmin_def)

lemma batchSizeOf_not_PosInf: "batchSizeOf s device n quota \<noteq> PosInf"
  by (simp add: batchSizeOf_def jmin_not_PosInf)

lemma iterations_two:
  assumes sh: "sh = NaN \<or> sh = PosInf \<or> (\<exists>v. sh = Fin v \<and> 1 \<le> v)"
    and sl: "sl = NaN \<or> sl = PosInf \<or> (\<exists>v. sl = Fin v \<and> 0 < v)"
  shows "iterations (jmin sh (jmin sl (Fin 2))) =
           (if jmin sh sl = NaN then 0 else if jle (jmin sh sl) (Fin 1) then 1 else 2)"
proof -
  have c: "\<And>v::rat. 0 < v \<Longrightarrow> nat \<lceil>min v 2\<rceil> = (if v \<le> 1 then 1 else 2)"
  proof -
    fix v :: rat
    assume v: "0 < v"
    show "nat \<lceil>min v 2\<rceil> = (if v \<le> 1 then 1 else 2)"
    proof (cases "v \<le> 1")
      case True
      with v have "\<lceil>min v 2\<rceil> = 1" by (simp add: ceiling_eq_iff min_def)
      with True show ?thesis by simp
    next
      case False
      then have "1 < min v 2" "min v 2 \<le> 2" by simp_all
      then have "\<lceil>min v 2\<rceil> = 2" by (simp add: ceiling_eq_iff)
      with False show ?thesis by simp
    qed
  qed
  from sh sl show ?thesis
  proof (elim disjE exE conjE)
    fix v w :: rat
    assume h: "sh = Fin v" "1 \<le> v" "sl = Fin w" "0 < w"
    then have m: "0 < min v w" by simp
    have "jmin sh (jmin sl (Fin 2)) = Fin (min (min v w) 2)"
      using h by (auto simp: jmin_def min_def)
    moreover have "jmin sh sl = Fin (min v w)" using h by (auto simp: jmin_def min_def)
    ultimately show ?thesis using c [OF m] by (simp add: jle_def)
  next
    fix w :: rat
    assume h: "sh = PosInf" "sl = Fin w" "0 < w"
    then have "jmin sh (jmin sl (Fin 2)) = Fin (min w 2)" "jmin sh sl = Fin w"
      by (auto simp: jmin_def min_def)
    then show ?thesis using c [OF h(3)] by (simp add: jle_def)
  next
    fix v :: rat
    assume h: "sh = Fin v" "1 \<le> v" "sl = PosInf"
    then have v: "0 < v" by simp
    from h have "jmin sh (jmin sl (Fin 2)) = Fin (min v 2)" "jmin sh sl = Fin v"
      by (auto simp: jmin_def min_def)
    then show ?thesis using c [OF v] by (simp add: jle_def)
  qed (simp_all add: jmin_def jle_def)
qed

section \<open>The selection loop\<close>

lemma findIndex_none: "find P xs = None \<Longrightarrow> findIndex P xs = - 1"
  by (induction xs) (auto split: if_splits)

lemma findIndex_some:
  "find P xs = Some y \<Longrightarrow>
     0 \<le> findIndex P xs \<and> findIndex P xs < int (length xs)
     \<and> xs ! nat (findIndex P xs) = y
     \<and> splice1 (nat (findIndex P xs)) xs = remove1 y xs"
proof (induction xs)
  case Nil
  then show ?case by simp
next
  case (Cons x xs)
  show ?case
  proof (cases "P x")
    case True
    with Cons.prems show ?thesis by (simp add: splice1_def)
  next
    case False
    with Cons.prems have f: "find P xs = Some y" by simp
    from Cons.IH [OF f] have ih: "0 \<le> findIndex P xs" "findIndex P xs < int (length xs)"
      "xs ! nat (findIndex P xs) = y" "splice1 (nat (findIndex P xs)) xs = remove1 y xs"
      by simp_all
    from f have "P y" by (auto simp: find_Some_iff)
    with False have ne: "x \<noteq> y" by auto
    have n: "nat (findIndex P xs + 1) = Suc (nat (findIndex P xs))" using ih(1) by simp
    show ?thesis using False ih ne n
      by (simp add: Let_def splice1_def)
  qed
qed

lemma takeJobs_empty: "takeJobs n p [] b a = (b, [], a)"
  by (induction n) simp_all

lemma takeJobs_step:
  assumes "queue \<noteq> []"
  shows "takeJobs (Suc n) p queue b a =
         takeJobs n p (remove1 (selected p queue) queue) (b @ [selected p queue])
           (jadd a (Fin 1))"
proof (cases "find (\<lambda>j. type_job j = p) queue")
  case None
  from assms obtain x xs where q: "queue = x # xs" by (cases queue) auto
  from None have "findIndex (\<lambda>j. type_job j = p) queue = - 1" by (rule findIndex_none)
  then show ?thesis using None q by (simp add: selected_def splice1_def)
next
  case (Some y)
  from findIndex_some [OF Some] show ?thesis using Some
    by (simp add: selected_def Let_def)
qed

lemma selected_in:
  assumes "queue \<noteq> []"
  shows "selected p queue \<in> set queue"
proof (cases "find (\<lambda>j. type_job j = p) queue")
  case None
  with assms show ?thesis by (simp add: selected_def)
next
  case (Some y)
  then have "y \<in> set queue" by (auto simp: find_Some_iff)
  with Some show ?thesis by (simp add: selected_def)
qed

lemma takeJobs_spec:
  "takeJobs n p queue b a = (b', q', a') \<Longrightarrow>
     length b' = length b + min n (length queue)
     \<and> length q' = length queue - min n (length queue)
     \<and> mset b' + mset q' = mset b + mset queue
     \<and> take (length b) b' = b"
proof (induction n arbitrary: queue b a)
  case 0
  then show ?case by simp
next
  case (Suc n)
  show ?case
  proof (cases "queue = []")
    case True
    with Suc.prems show ?thesis by (simp add: takeJobs_empty)
  next
    case False
    let ?j = "selected p queue"
    from Suc.prems have "takeJobs n p (remove1 ?j queue) (b @ [?j]) (jadd a (Fin 1)) = (b', q', a')"
      by (simp only: takeJobs_step [OF False])
    from Suc.IH [OF this] have ih:
      "length b' = length (b @ [?j]) + min n (length (remove1 ?j queue))"
      "length q' = length (remove1 ?j queue) - min n (length (remove1 ?j queue))"
      "mset b' + mset q' = mset (b @ [?j]) + mset (remove1 ?j queue)"
      "take (length (b @ [?j])) b' = b @ [?j]"
      by simp_all
    have mem: "?j \<in> set queue" by (rule selected_in [OF False])
    then have len: "length (remove1 ?j queue) = length queue - 1"
      by (simp add: length_remove1)
    have tk: "take (length b) b' = b"
    proof -
      have "take (length b) b' = take (length b) (take (length (b @ [?j])) b')" by simp
      also have "\<dots> = take (length b) (b @ [?j])" by (simp only: ih(4))
      also have "\<dots> = b" by simp
      finally show ?thesis .
    qed
    have m: "min (Suc n) (length queue) = Suc (min n (length queue - 1))"
      using False by (cases queue) (auto simp: min_def)
    have c1: "length b' = length b + min (Suc n) (length queue)"
      using ih(1) len m by simp
    have c3: "length q' = length queue - min (Suc n) (length queue)"
      using ih(2) len m by simp
    have c4: "mset b' + mset q' = mset b + mset queue"
      using ih(3) mem by simp
    show ?thesis using c1 c3 c4 tk by blast
  qed
qed

section \<open>The cases of a batch request\<close>



lemma getJobBatch_known:
  assumes q: "map_of (deviceQuotas s) (id_device device) = Some quota"
    and av: "\<not> jle (availableSlots quota) (Fin 0)"
  shows "\<exists>batch queue active.
     getJobBatchForDevice device n s =
       (batch, s\<lparr>jobQueue := queue,
                 deviceQuotas := AList.update (id_device device)
                   (quota\<lparr>activeJobs := active\<rparr>) (deviceQuotas s)\<rparr>)
     \<and> length batch = iterations (batchSizeOf s device n quota)
     \<and> mset batch + mset queue = mset (jobQueue s)
     \<and> length queue = length (jobQueue s) - length batch
     \<and> takeJobs (length batch) (preferredKind device) (jobQueue s) [] (activeJobs quota)
         = (batch, queue, active)"
proof -
  define k where "k = iterations (batchSizeOf s device n quota)"
  obtain batch queue active where
    t: "takeJobs k (preferredKind device) (jobQueue s) [] (activeJobs quota)
          = (batch, queue, active)"
    by (metis prod_cases3)
  have le: "k \<le> length (jobQueue s)"
    unfolding k_def batchSizeOf_def by (rule iterations_bounded)
  from takeJobs_spec [OF t] le have
    l: "length batch = k"
    and ql: "length queue = length (jobQueue s) - k"
    and ms: "mset batch + mset queue = mset (jobQueue s)"
    by (simp_all add: min_def)
  have r: "getJobBatchForDevice device n s =
       (batch, s\<lparr>jobQueue := queue,
                 deviceQuotas := AList.update (id_device device)
                   (quota\<lparr>activeJobs := active\<rparr>) (deviceQuotas s)\<rparr>)"
    using q av t unfolding k_def by (subst getJobBatchForDevice.simps) (simp add: Let_def)
  have t': "takeJobs (length batch) (preferredKind device) (jobQueue s) [] (activeJobs quota)
         = (batch, queue, active)"
    using t unfolding l [symmetric] .
  have ql': "length queue = length (jobQueue s) - length batch" using ql l by simp
  have l': "length batch = iterations (batchSizeOf s device n quota)"
    using l by (simp only: k_def)
  from r l' ms ql' t' show ?thesis by blast
qed


section \<open>The bound on the active jobs of a device\<close>

text \<open>
  Claim C1: after any sequence of \<open>getJobBatchForDevice\<close> and \<open>releaseJobSlot\<close>
  calls, a quota satisfies \<open>0 \<le> activeJobs \<le> maxConcurrent\<close>. The code at a device
  that reports 2.6 cores: registration gives it \<open>maxConcurrent = 10.4\<close> (the double
  nearest to it) and no active job; with 100 jobs queued, one request for 10 jobs then
  leaves it with 11 active jobs, which is more than its \<open>maxConcurrent\<close>.
\<close>

theorem activeJobs_exceeds_maxConcurrent:
  "map_of (deviceQuotas (run overshootOps)) ''F'' =
     Some \<lparr>deviceId = ''F'', weight = Fin 26, activeJobs = Fin 0,
           maxConcurrent = Fin (binary64 (104 / 10))\<rparr>
   \<and> map_of (deviceQuotas (schedStep (GetJobBatch deviceF (Fin 10)) (run overshootOps))) ''F'' =
     Some \<lparr>deviceId = ''F'', weight = Fin 26, activeJobs = Fin 11,
           maxConcurrent = Fin (binary64 (104 / 10))\<rparr>
   \<and> jlt (Fin (binary64 (104 / 10))) (Fin 11)"
  by code_simp

section \<open>The size of a batch\<close>

text \<open>
  Claim C2: \<open>getJobBatchForDevice\<close> returns at most
  \<open>min(share, availableSlots, queueLength)\<close> jobs. The code at the device that reports
  2.6 cores, registered alone, with 100 jobs queued and a request for 10 jobs: the
  share is 30, the available slots are 10.4, the queue holds 100 jobs, and the batch
  has 11 jobs, which is more than the least of the three.
\<close>

theorem batch_exceeds_availableSlots:
  "map_of (deviceQuotas (run overshootOps)) (id_device deviceF) =
     Some \<lparr>deviceId = ''F'', weight = Fin 26, activeJobs = Fin 0,
           maxConcurrent = Fin (binary64 (104 / 10))\<rparr>
   \<and> shareOf (run overshootOps) deviceF (Fin 10) = Fin 30
   \<and> availableSlots
        \<lparr>deviceId = ''F'', weight = Fin 26, activeJobs = Fin 0,
         maxConcurrent = Fin (binary64 (104 / 10))\<rparr>
       = Fin (binary64 (104 / 10))
   \<and> length (jobQueue (run overshootOps)) = 100
   \<and> jmin (Fin 30) (jmin (Fin (binary64 (104 / 10))) (Fin 100)) = Fin (binary64 (104 / 10))
   \<and> length (fst (getJobBatchForDevice deviceF (Fin 10) (run overshootOps))) = 11
   \<and> jlt (Fin (binary64 (104 / 10))) (Fin 11)"
  by code_simp

section \<open>The running total of the weights\<close>









lemma releaseJobSlot_idle:
  "map_of (deviceQuotas s) k = None \<or>
   (\<exists>q. map_of (deviceQuotas s) k = Some q \<and> \<not> jlt (Fin 0) (activeJobs q)) \<Longrightarrow>
   releaseJobSlot k d s = s"
  by (auto simp: releaseJobSlot_def)

lemma releaseJobSlot_active:
  assumes q: "map_of (deviceQuotas s) k = Some q" and p: "jlt (Fin 0) (activeJobs q)"
  shows "\<exists>w. releaseJobSlot k d s =
           s\<lparr>deviceQuotas := AList.update k
               (q\<lparr>activeJobs := jsub (activeJobs q) (Fin 1), weight := w\<rparr>)
               (deviceQuotas s)\<rparr>"
proof (cases "\<exists>x. d = Some x \<and> truthy x \<and> jlt (Fin 0) x")
  case False
  then have "releaseJobSlot k d s =
           s\<lparr>deviceQuotas := AList.update k
               (q\<lparr>activeJobs := jsub (activeJobs q) (Fin 1), weight := weight q\<rparr>)
               (deviceQuotas s)\<rparr>"
    using q p by (cases d) (auto simp: releaseJobSlot_def Let_def)
  then show ?thesis ..
next
  case True
  then obtain x where d: "d = Some x" and x: "truthy x" "jlt (Fin 0) x" by blast
  have "releaseJobSlot k d s =
           s\<lparr>deviceQuotas := AList.update k
               (q\<lparr>activeJobs := jsub (activeJobs q) (Fin 1),
                  weight := jmul (weight q)
                     (if jlt (Fin 2000) x then Fin (binary64 (95 / 100))
                      else Fin (binary64 (102 / 100)))\<rparr>)
               (deviceQuotas s)\<rparr>"
    using q p d x by (simp add: releaseJobSlot_def Let_def)
  then show ?thesis ..
qed

lemma release_frame:
  "deviceWeights (releaseJobSlot k d s) = deviceWeights s
   \<and> totalWeight (releaseJobSlot k d s) = totalWeight s
   \<and> jobQueue (releaseJobSlot k d s) = jobQueue s"
proof (cases "\<exists>q. map_of (deviceQuotas s) k = Some q \<and> jlt (Fin 0) (activeJobs q)")
  case False
  then have "releaseJobSlot k d s = s"
    by (intro releaseJobSlot_idle) (cases "map_of (deviceQuotas s) k", auto)
  then show ?thesis by simp
next
  case True
  then obtain q where q: "map_of (deviceQuotas s) k = Some q"
    and p: "jlt (Fin 0) (activeJobs q)"
    by blast
  from releaseJobSlot_active [OF q p, of d] obtain w where
    r: "releaseJobSlot k d s =
           s\<lparr>deviceQuotas := AList.update k
               (q\<lparr>activeJobs := jsub (activeJobs q) (Fin 1), weight := w\<rparr>)
               (deviceQuotas s)\<rparr>"
    by blast
  show ?thesis by (simp add: r)
qed




lemma toNumber_zero: "toNumber 0 = Fin 0"
  by (simp add: toNumber_def binary64_zero floorLog2_def bitlen_def)






section \<open>Re-registration and the quota\<close>

text \<open>
  Claim C3, in the form that holds of the code: \<open>registerDevice\<close> replaces the quota
  of the device by a fresh record, whose \<open>activeJobs\<close> is 0 whatever it was before;
  the quotas of the other devices and the queue are unchanged.
\<close>

theorem registerDevice_recreates_quota:
  "map_of (deviceQuotas (registerDevice device s)) (id_device device) =
     Some \<lparr>deviceId = id_device device, weight = calculateWeight device, activeJobs = Fin 0,
           maxConcurrent =
             jmax (Fin 10) (jmul (jor (cpuCores (capabilities device)) (Fin 4)) (Fin 4))\<rparr>
   \<and> (\<forall>k. k \<noteq> id_device device \<longrightarrow>
          map_of (deviceQuotas (registerDevice device s)) k = map_of (deviceQuotas s) k)
   \<and> jobQueue (registerDevice device s) = jobQueue s"
  by (simp add: registerDevice_def Let_def update_conv')

theorem registerDevice_recreates_quota_witness:
  "map_of (deviceQuotas (run exampleOps)) (id_device deviceD)
     = Some \<lparr>deviceId = ''D'', weight = Fin 38, activeJobs = Fin 15, maxConcurrent = Fin 16\<rparr>
   \<and> map_of (deviceQuotas (registerDevice deviceD (run exampleOps))) (id_device deviceD)
     = Some \<lparr>deviceId = ''D'', weight = Fin 40, activeJobs = Fin 0, maxConcurrent = Fin 16\<rparr>
   \<and> ''G'' \<noteq> id_device deviceD
   \<and> map_of (deviceQuotas (registerDevice deviceD (run exampleOps))) ''G''
     = map_of (deviceQuotas (run exampleOps)) ''G''"
proof -
  have q: "map_of (deviceQuotas (run exampleOps)) (id_device deviceD)
     = Some \<lparr>deviceId = ''D'', weight = Fin 38, activeJobs = Fin 15, maxConcurrent = Fin 16\<rparr>"
    by code_simp
  have i: "id_device deviceD = ''D''" by (simp add: deviceD_def)
  have w: "calculateWeight deviceD = Fin 40" by code_simp
  have m: "jmax (Fin 10) (jmul (jor (cpuCores (capabilities deviceD)) (Fin 4)) (Fin 4)) = Fin 16"
    by code_simp
  from registerDevice_recreates_quota [of deviceD "run exampleOps"] q i w m
  show ?thesis by simp
qed

text \<open>
  The claim as worded does not hold: a device with 15 active jobs has none after it
  registers again.
\<close>

theorem registerDevice_keeps_activeJobs_counterexample:
  "map_option activeJobs (map_of (deviceQuotas (run exampleOps)) (id_device deviceD))
     = Some (Fin 15)
   \<and> map_option activeJobs
        (map_of (deviceQuotas (registerDevice deviceD (run exampleOps))) (id_device deviceD))
       = Some (Fin 0)"
  by code_simp

section \<open>The selection of the preferred kind\<close>

lemma takeJobs_AB:
  assumes "type_job a = MATH_STRESS" "type_job b = MAT_MUL"
  shows "fst (takeJobs 0 p [a, b] [] x) = []"
    and "fst (takeJobs (Suc 0) MAT_MUL [a, b] [] x) = [b]"
    and "fst (takeJobs (Suc 0) MATH_STRESS [a, b] [] x) = [a]"
    and "fst (takeJobs (Suc (Suc 0)) MAT_MUL [a, b] [] x) = [b, a]"
    and "fst (takeJobs (Suc (Suc 0)) MATH_STRESS [a, b] [] x) = [a, b]"
  using assms by (simp_all add: splice1_def Let_def)

lemma shareOf_cases:
  "shareOf s device n = NaN \<or> shareOf s device n = PosInf
   \<or> (\<exists>v. shareOf s device n = Fin v \<and> 1 \<le> v)"
  unfolding shareOf_def Let_def by (rule jmax_one_cases)

text \<open>
  Claim C5, in the form that holds of the code. One iteration of the loop removes
  from a non-empty queue the first job of the preferred kind, or the oldest job when
  there is none, and counts it. With the queue \<open>[A, B]\<close>, \<open>A\<close> a CPU-stress job and
  \<open>B\<close> a matrix-multiply job, a device that has a quota with a free slot and requests
  1 job receives the job of its kind alone when the least of its share and its free
  slots is at most 1, both jobs with the one of its kind first when that least is
  more than 1, and no job when its share or its free slots are not a number.
\<close>

theorem preferred_kind_selection:
  "(queue \<noteq> [] \<longrightarrow>
      takeJobs (Suc n) preferred queue batch active =
        takeJobs n preferred (remove1 (selected preferred queue) queue)
          (batch @ [selected preferred queue]) (jadd active (Fin 1)))
   \<and> (jobQueue s = [a, b] \<and> type_job a = MATH_STRESS \<and> type_job b = MAT_MUL
        \<and> map_of (deviceQuotas s) (id_device device) = Some quota
        \<and> \<not> jle (availableSlots quota) (Fin 0) \<longrightarrow>
        fst (getJobBatchForDevice device (Fin 1) s) =
          (if jmin (shareOf s device (Fin 1)) (availableSlots quota) = NaN then []
           else if jle (jmin (shareOf s device (Fin 1)) (availableSlots quota)) (Fin 1)
           then (if gpuAvailable (capabilities device) then [b] else [a])
           else (if gpuAvailable (capabilities device) then [b, a] else [a, b])))"
proof (intro conjI impI)
  assume "queue \<noteq> []"
  then show "takeJobs (Suc n) preferred queue batch active =
        takeJobs n preferred (remove1 (selected preferred queue) queue)
          (batch @ [selected preferred queue]) (jadd active (Fin 1))"
    by (rule takeJobs_step)
next
  assume h: "jobQueue s = [a, b] \<and> type_job a = MATH_STRESS \<and> type_job b = MAT_MUL
        \<and> map_of (deviceQuotas s) (id_device device) = Some quota
        \<and> \<not> jle (availableSlots quota) (Fin 0)"
  then have jq: "jobQueue s = [a, b]" and ta: "type_job a = MATH_STRESS"
    and tb: "type_job b = MAT_MUL"
    and q: "map_of (deviceQuotas s) (id_device device) = Some quota"
    and av: "\<not> jle (availableSlots quota) (Fin 0)" by simp_all
  define m where "m = jmin (shareOf s device (Fin 1)) (availableSlots quota)"
  from getJobBatch_known [OF q av, of "Fin 1"] obtain bt queue active where
    r: "fst (getJobBatchForDevice device (Fin 1) s) = bt"
    and l: "length bt = iterations (batchSizeOf s device (Fin 1) quota)"
    and t: "takeJobs (length bt) (preferredKind device) (jobQueue s) [] (activeJobs quota)
         = (bt, queue, active)"
    by auto
  have l2: "length bt = (if m = NaN then 0 else if jle m (Fin 1) then 1 else 2)"
    using iterations_two [OF shareOf_cases [of s device "Fin 1"] not_jle_zero_cases [OF av]] l
    by (simp add: batchSizeOf_def jq m_def)
  from t have ft: "fst (takeJobs (length bt) (preferredKind device) [a, b] []
                     (activeJobs quota)) = bt"
    by (simp add: jq)
  have "bt = (if m = NaN then []
           else if jle m (Fin 1)
           then (if gpuAvailable (capabilities device) then [b] else [a])
           else (if gpuAvailable (capabilities device) then [b, a] else [a, b]))"
  proof (cases "m = NaN")
    case True
    with l2 show ?thesis by simp
  next
    case nn: False
    show ?thesis
    proof (cases "jle m (Fin 1)")
      case True
      with l2 nn have "length bt = Suc 0" by simp
      with ft have
        "fst (takeJobs (Suc 0) (preferredKind device) [a, b] [] (activeJobs quota)) = bt"
        by simp
      with takeJobs_AB(2,3) [OF ta tb] True nn show ?thesis
        by (simp add: preferredKind_def split: if_splits)
    next
      case False
      with l2 nn have "length bt = Suc (Suc 0)" by simp
      with ft have
        "fst (takeJobs (Suc (Suc 0)) (preferredKind device) [a, b] [] (activeJobs quota)) = bt"
        by simp
      with takeJobs_AB(4,5) [OF ta tb] False nn show ?thesis
        by (simp add: preferredKind_def split: if_splits)
    qed
  qed
  with r show "fst (getJobBatchForDevice device (Fin 1) s) =
          (if jmin (shareOf s device (Fin 1)) (availableSlots quota) = NaN then []
           else if jle (jmin (shareOf s device (Fin 1)) (availableSlots quota)) (Fin 1)
           then (if gpuAvailable (capabilities device) then [b] else [a])
           else (if gpuAvailable (capabilities device) then [b, a] else [a, b]))"
    by (simp only: m_def)
qed

text \<open>
  The claim as worded does not hold: a device registered alone holds the whole weight,
  so its share for a request of 1 is 3 and it receives both jobs.
\<close>

theorem preferred_kind_exactly_one_counterexample:
  "jobQueue (registerDevice deviceG queueAB) = [jobA, jobB]
   \<and> fst (getJobBatchForDevice deviceG (Fin 1) (registerDevice deviceG queueAB)) = [jobB, jobA]
   \<and> jobQueue (registerDevice deviceD queueAB) = [jobA, jobB]
   \<and> fst (getJobBatchForDevice deviceD (Fin 1) (registerDevice deviceD queueAB)) = [jobA, jobB]"
  by code_simp

theorem preferred_kind_selection_witness:
  "takeJobs (Suc 0) MAT_MUL [jobA, jobB] [] (Fin 0) = ([jobB], [jobA], Fin 1)
   \<and> fst (getJobBatchForDevice deviceD (Fin 1) twoDevicesAB) = [jobA]
   \<and> fst (getJobBatchForDevice deviceG (Fin 1) twoDevicesAB) = [jobB, jobA]
   \<and> fst (getJobBatchForDevice deviceInf (Fin 1) (registerDevice deviceInf queueAB)) = []"
proof -
  have ne: "[jobA, jobB] \<noteq> []" by simp
  have sel: "selected MAT_MUL [jobA, jobB] = jobB" by code_simp
  have rm: "remove1 jobB [jobA, jobB] = [jobA]" by code_simp
  have one: "jadd (Fin 0) (Fin 1) = Fin 1" by code_simp
  have jq: "jobQueue twoDevicesAB = [jobA, jobB]" by code_simp
  have ji: "jobQueue (registerDevice deviceInf queueAB) = [jobA, jobB]" by code_simp
  have ta: "type_job jobA = MATH_STRESS" by (simp add: jobA_def)
  have tb: "type_job jobB = MAT_MUL" by (simp add: jobB_def)
  have qd: "map_of (deviceQuotas twoDevicesAB) (id_device deviceD)
              = Some \<lparr>deviceId = ''D'', weight = Fin 40, activeJobs = Fin 0,
                      maxConcurrent = Fin 16\<rparr>"
    by code_simp
  have qg: "map_of (deviceQuotas twoDevicesAB) (id_device deviceG)
              = Some \<lparr>deviceId = ''G'', weight = Fin 155, activeJobs = Fin 0,
                      maxConcurrent = Fin 32\<rparr>"
    by code_simp
  have qi: "map_of (deviceQuotas (registerDevice deviceInf queueAB)) (id_device deviceInf)
              = Some \<lparr>deviceId = ''I'', weight = PosInf, activeJobs = Fin 0,
                      maxConcurrent = PosInf\<rparr>"
    by code_simp
  have ad: "availableSlots \<lparr>deviceId = ''D'', weight = Fin 40, activeJobs = Fin 0,
              maxConcurrent = Fin 16\<rparr> = Fin 16" by code_simp
  have ag: "availableSlots \<lparr>deviceId = ''G'', weight = Fin 155, activeJobs = Fin 0,
              maxConcurrent = Fin 32\<rparr> = Fin 32" by code_simp
  have ai: "availableSlots \<lparr>deviceId = ''I'', weight = PosInf, activeJobs = Fin 0,
              maxConcurrent = PosInf\<rparr> = PosInf" by code_simp
  have sd: "shareOf twoDevicesAB deviceD (Fin 1) = Fin 1" by code_simp
  have sg: "shareOf twoDevicesAB deviceG (Fin 1) = Fin 2" by code_simp
  have si: "shareOf (registerDevice deviceInf queueAB) deviceInf (Fin 1) = NaN" by code_simp
  have gd: "\<not> gpuAvailable (capabilities deviceD)" by (simp add: deviceD_def caps4_def)
  have gg: "gpuAvailable (capabilities deviceG)" by (simp add: deviceG_def capsGpu_def)
  from preferred_kind_selection [where queue = "[jobA, jobB]" and n = 0
      and preferred = MAT_MUL and batch = "[]" and active = "Fin 0" and s = twoDevicesAB
      and a = jobA and b = jobB and device = deviceD
      and quota = "\<lparr>deviceId = ''D'', weight = Fin 40, activeJobs = Fin 0,
                     maxConcurrent = Fin 16\<rparr>"]
    ne sel rm one jq ta tb qd ad sd gd
  have d: "takeJobs (Suc 0) MAT_MUL [jobA, jobB] [] (Fin 0) = ([jobB], [jobA], Fin 1)
           \<and> fst (getJobBatchForDevice deviceD (Fin 1) twoDevicesAB) = [jobA]"
    by (simp add: jmin_def jle_def)
  from preferred_kind_selection [where queue = "[jobA, jobB]" and n = 0
      and preferred = MAT_MUL and batch = "[]" and active = "Fin 0" and s = twoDevicesAB
      and a = jobA and b = jobB and device = deviceG
      and quota = "\<lparr>deviceId = ''G'', weight = Fin 155, activeJobs = Fin 0,
                     maxConcurrent = Fin 32\<rparr>"]
    jq ta tb qg ag sg gg
  have g: "fst (getJobBatchForDevice deviceG (Fin 1) twoDevicesAB) = [jobB, jobA]"
    by (simp add: jmin_def jle_def)
  from preferred_kind_selection [where queue = "[jobA, jobB]" and n = 0
      and preferred = MAT_MUL and batch = "[]" and active = "Fin 0"
      and s = "registerDevice deviceInf queueAB"
      and a = jobA and b = jobB and device = deviceInf
      and quota = "\<lparr>deviceId = ''I'', weight = PosInf, activeJobs = Fin 0,
                     maxConcurrent = PosInf\<rparr>"]
    ji ta tb qi ai si
  have i: "fst (getJobBatchForDevice deviceInf (Fin 1) (registerDevice deviceInf queueAB)) = []"
    by (simp add: jmin_def jle_def)
  from d g i show ?thesis by simp
qed

section \<open>Completion latency and the share\<close>

lemma shareOf_frame:
  "deviceWeights s' = deviceWeights s \<Longrightarrow> totalWeight s' = totalWeight s \<Longrightarrow>
     shareOf s' device n = shareOf s device n"
  by (simp add: shareOf_def)

lemma releases_frame:
  "deviceWeights (fold (\<lambda>(k, d). releaseJobSlot k d) completions s) = deviceWeights s
   \<and> totalWeight (fold (\<lambda>(k, d). releaseJobSlot k d) completions s) = totalWeight s"
proof (induction completions arbitrary: s)
  case Nil
  show ?case by simp
next
  case (Cons c completions)
  obtain k d where c: "c = (k, d)" by (cases c)
  from Cons.IH [of "releaseJobSlot k d s"] release_frame [of k d s] show ?case
    by (simp add: c)
qed

text \<open>
  Claim C10: \<open>releaseJobSlot\<close> leaves the \<open>deviceWeights\<close> map, the running total and
  the queue as they were, so the share \<open>getJobBatchForDevice\<close> computes for any device
  and any request is the same after one completion and after any sequence of
  completions; for a device with an active job it rewrites only the \<open>activeJobs\<close> and
  \<open>weight\<close> fields of that device's quota.
\<close>

theorem releaseJobSlot_keeps_share:
  "deviceWeights (releaseJobSlot k d s) = deviceWeights s
   \<and> totalWeight (releaseJobSlot k d s) = totalWeight s
   \<and> jobQueue (releaseJobSlot k d s) = jobQueue s
   \<and> shareOf (releaseJobSlot k d s) device n = shareOf s device n
   \<and> shareOf (fold (\<lambda>(k, d). releaseJobSlot k d) completions s) device n = shareOf s device n
   \<and> (map_of (deviceQuotas s) k = Some q \<and> jlt (Fin 0) (activeJobs q) \<longrightarrow>
        (\<exists>w. releaseJobSlot k d s =
           s\<lparr>deviceQuotas := AList.update k
               (q\<lparr>activeJobs := jsub (activeJobs q) (Fin 1), weight := w\<rparr>)
               (deviceQuotas s)\<rparr>))"
proof -
  have f: "deviceWeights (releaseJobSlot k d s) = deviceWeights s"
    "totalWeight (releaseJobSlot k d s) = totalWeight s"
    "jobQueue (releaseJobSlot k d s) = jobQueue s"
    using release_frame [of k d s] by simp_all
  have s1: "shareOf (releaseJobSlot k d s) device n = shareOf s device n"
    by (rule shareOf_frame [OF f(1) f(2)])
  have s2: "shareOf (fold (\<lambda>(k, d). releaseJobSlot k d) completions s) device n
              = shareOf s device n"
    using releases_frame [of completions s] by (intro shareOf_frame) simp_all
  have a: "map_of (deviceQuotas s) k = Some q \<and> jlt (Fin 0) (activeJobs q) \<longrightarrow>
        (\<exists>w. releaseJobSlot k d s =
           s\<lparr>deviceQuotas := AList.update k
               (q\<lparr>activeJobs := jsub (activeJobs q) (Fin 1), weight := w\<rparr>)
               (deviceQuotas s)\<rparr>)"
    using releaseJobSlot_active [of s k q d] by blast
  from f s1 s2 a show ?thesis by blast
qed

theorem releaseJobSlot_keeps_share_witness:
  "shareOf (releaseJobSlot ''D'' (Some (Fin 2500)) busyScheduler) deviceD (Fin 10)
     = shareOf busyScheduler deviceD (Fin 10)
   \<and> shareOf (fold (\<lambda>(k, d). releaseJobSlot k d)
        [(''D'', Some (Fin 2500)), (''D'', Some (Fin 100))]
        busyScheduler) deviceD (Fin 10) = shareOf busyScheduler deviceD (Fin 10)
   \<and> map_of (deviceQuotas busyScheduler) ''D''
       = Some \<lparr>deviceId = ''D'', weight = Fin 40, activeJobs = Fin 3, maxConcurrent = Fin 16\<rparr>
   \<and> map_of (deviceQuotas (releaseJobSlot ''D'' (Some (Fin 2500)) busyScheduler)) ''D''
       = Some \<lparr>deviceId = ''D'', weight = Fin 38, activeJobs = Fin 2, maxConcurrent = Fin 16\<rparr>
   \<and> deviceWeights (releaseJobSlot ''D'' (Some (Fin 2500)) busyScheduler) = [(''D'', Fin 40)]
   \<and> totalWeight (releaseJobSlot ''D'' (Some (Fin 2500)) busyScheduler) = Fin 40"
proof -
  have q: "map_of (deviceQuotas busyScheduler) ''D''
       = Some \<lparr>deviceId = ''D'', weight = Fin 40, activeJobs = Fin 3, maxConcurrent = Fin 16\<rparr>"
    by code_simp
  have q': "map_of (deviceQuotas (releaseJobSlot ''D'' (Some (Fin 2500)) busyScheduler)) ''D''
       = Some \<lparr>deviceId = ''D'', weight = Fin 38, activeJobs = Fin 2, maxConcurrent = Fin 16\<rparr>"
    by code_simp
  have w: "deviceWeights busyScheduler = [(''D'', Fin 40)]" "totalWeight busyScheduler = Fin 40"
    by (simp_all add: busyScheduler_def)
  from releaseJobSlot_keeps_share [where k = "''D''" and d = "Some (Fin 2500)"
      and s = busyScheduler and device = deviceD and n = "Fin 10"
      and completions = "[(''D'', Some (Fin 2500)), (''D'', Some (Fin 100))]"
      and q = "\<lparr>deviceId = ''D'', weight = Fin 40, activeJobs = Fin 3,
                 maxConcurrent = Fin 16\<rparr>"]
    q q' w
  show ?thesis by simp
qed

section \<open>The sweep of the device registry\<close>

lemma cleanupEntries_lookup:
  "distinct (map fst entries) \<Longrightarrow>
     map_of (cleanupEntries now entries devices) k =
       (case map_of entries k of
          None \<Rightarrow> map_of devices k
        | Some device \<Rightarrow>
            if now - lastHeartbeat device > 300000 then None
            else if now - lastHeartbeat device > 60000 \<and> status device \<noteq> DISABLED
            then Some (device\<lparr>status := OFFLINE\<rparr>)
            else map_of devices k)"
proof (induction entries arbitrary: devices)
  case Nil
  show ?case by simp
next
  case (Cons e entries)
  obtain ident device where e: "e = (ident, device)" by (cases e)
  from Cons.prems e have d: "distinct (map fst entries)" and n: "map_of entries ident = None"
    by (simp_all add: map_of_eq_None_iff)
  let ?m = "(let diff = now - lastHeartbeat device
        in if diff > DELETE_THRESHOLD then AList.delete ident devices
           else if status device \<noteq> DISABLED \<and> diff > OFFLINE_THRESHOLD
           then AList.update ident (device\<lparr>status := OFFLINE\<rparr>) devices
           else devices)"
  have step: "map_of (cleanupEntries now (e # entries) devices) k =
       (case map_of entries k of
          None \<Rightarrow> map_of ?m k
        | Some device \<Rightarrow>
            if now - lastHeartbeat device > 300000 then None
            else if now - lastHeartbeat device > 60000 \<and> status device \<noteq> DISABLED
            then Some (device\<lparr>status := OFFLINE\<rparr>)
            else map_of ?m k)"
    unfolding e cleanupEntries.simps by (rule Cons.IH [OF d])
  show ?case
  proof (cases "k = ident")
    case True
    have "map_of ?m ident =
            (if now - lastHeartbeat device > 300000 then None
             else if now - lastHeartbeat device > 60000 \<and> status device \<noteq> DISABLED
             then Some (device\<lparr>status := OFFLINE\<rparr>)
             else map_of devices ident)"
      by (simp add: update_conv' delete_conv' DELETE_THRESHOLD_def OFFLINE_THRESHOLD_def
            Let_def)
    with n True step show ?thesis by (simp add: e)
  next
    case False
    then have "map_of ?m k = map_of devices k"
      by (simp add: update_conv' delete_conv' Let_def)
    with False step show ?thesis by (cases "map_of entries k") (simp_all add: e)
  qed
qed

lemma cleanupEntries_distinct:
  "distinct (map fst devices) \<Longrightarrow> distinct (map fst (cleanupEntries now entries devices))"
proof (induction entries arbitrary: devices)
  case Nil
  then show ?case by simp
next
  case (Cons e entries)
  obtain ident device where e: "e = (ident, device)" by (cases e)
  show ?case using Cons.prems
    by (simp add: e Let_def Cons.IH distinct_update distinct_delete)
qed

lemma cleanup_lookup:
  assumes "distinct (map fst devices)"
  shows "map_of (cleanup now devices) k =
       (case map_of devices k of
          None \<Rightarrow> None
        | Some device \<Rightarrow>
            if now - lastHeartbeat device > 300000 then None
            else if now - lastHeartbeat device > 60000 \<and> status device \<noteq> DISABLED
            then Some (device\<lparr>status := OFFLINE\<rparr>)
            else Some device)"
  unfolding cleanup_def cleanupEntries_lookup [OF assms]
  by (simp split: option.splits)

text \<open>
  Claim C7. For every device of a registry with unique keys (the keys of a JavaScript
  \<open>Map\<close> are unique, and every call of the device manager keeps them so),
  \<open>cleanup\<close> removes the record when the
  silence since its last heartbeat exceeds 300000 ms; otherwise, when the silence
  exceeds 60000 ms and the status is not DISABLED, the status becomes OFFLINE and
  nothing else of the record changes; a DISABLED device silent for at most 300000 ms
  and any device silent for at most 60000 ms are left unchanged.
\<close>

theorem cleanup_sweeps_by_silence:
  assumes "distinct (map fst devices)"
    and "map_of devices ident = Some device"
  shows "(now - lastHeartbeat device > 300000 \<longrightarrow> map_of (cleanup now devices) ident = None)
    \<and> (now - lastHeartbeat device \<le> 300000 \<and> now - lastHeartbeat device > 60000
         \<and> status device \<noteq> DISABLED \<longrightarrow>
         map_of (cleanup now devices) ident = Some (device\<lparr>status := OFFLINE\<rparr>))
    \<and> (now - lastHeartbeat device \<le> 300000 \<and> now - lastHeartbeat device > 60000
         \<and> status device = DISABLED \<longrightarrow>
         map_of (cleanup now devices) ident = Some device)
    \<and> (now - lastHeartbeat device \<le> 60000 \<longrightarrow>
         map_of (cleanup now devices) ident = Some device)"
  using assms(2) by (simp add: cleanup_lookup [OF assms(1)])

theorem cleanup_sweeps_by_silence_witness:
  "distinct (map fst exampleRegistry)
   \<and> map_of (cleanup 1000000 exampleRegistry) ''old'' = None
   \<and> map_of (cleanup 1000000 exampleRegistry) ''quiet''
       = Some (deviceD\<lparr>id_device := ''quiet'', lastHeartbeat := 900000, status := OFFLINE\<rparr>)
   \<and> map_of (cleanup 1000000 exampleRegistry) ''off''
       = Some (deviceG\<lparr>id_device := ''off'', status := DISABLED, lastHeartbeat := 900000\<rparr>)
   \<and> map_of (cleanup 1000000 exampleRegistry) ''live''
       = Some (deviceG\<lparr>id_device := ''live'', lastHeartbeat := 995000\<rparr>)"
proof -
  have d: "distinct (map fst exampleRegistry)" by (simp add: exampleRegistry_def)
  have m1: "map_of exampleRegistry ''old''
              = Some (deviceD\<lparr>id_device := ''old'', lastHeartbeat := 600000\<rparr>)"
    and m2: "map_of exampleRegistry ''quiet''
              = Some (deviceD\<lparr>id_device := ''quiet'', lastHeartbeat := 900000\<rparr>)"
    and m3: "map_of exampleRegistry ''off''
              = Some (deviceG\<lparr>id_device := ''off'', status := DISABLED, lastHeartbeat := 900000\<rparr>)"
    and m4: "map_of exampleRegistry ''live''
              = Some (deviceG\<lparr>id_device := ''live'', lastHeartbeat := 995000\<rparr>)"
    by (simp_all add: exampleRegistry_def)
  have s2: "status deviceD \<noteq> DISABLED" by (simp add: deviceD_def)
  from cleanup_sweeps_by_silence [OF d m1, of 1000000]
    cleanup_sweeps_by_silence [OF d m2, of 1000000]
    cleanup_sweeps_by_silence [OF d m3, of 1000000]
    cleanup_sweeps_by_silence [OF d m4, of 1000000] d s2
  show ?thesis by simp
qed

section \<open>The DISABLED status\<close>

lemma statusOf_heartbeat:
  "statusOf (heartbeat ident li now devices) k =
     (if k = ident \<and> (statusOf devices k = Some OFFLINE \<or> statusOf devices k = Some REGISTERED)
      then Some ONLINE else statusOf devices k)"
  by (cases "map_of devices ident"; cases li)
     (auto simp: heartbeat_def statusOf_def update_conv' Let_def)

lemma statusOf_toggleDevice:
  "statusOf (toggleDevice ident enabled devices) k =
     (if k = ident \<and> statusOf devices k \<noteq> None
      then Some (if enabled then ONLINE else DISABLED) else statusOf devices k)"
  by (cases "map_of devices ident")
     (auto simp: toggleDevice_def statusOf_def update_conv')

lemma statusOf_updateScore:
  "statusOf (updateScore ident score devices) k = statusOf devices k"
  by (cases "map_of devices ident")
     (auto simp: updateScore_def statusOf_def update_conv')

lemma statusOf_remove:
  "statusOf (remove ident devices) k = (if k = ident then None else statusOf devices k)"
  by (simp add: remove_def statusOf_def delete_conv')

lemma statusOf_register:
  "statusOf (register ident nm caps swarm now1 now2 devices) k =
     (if k = ident then Some ONLINE else statusOf devices k)"
  by (simp add: register_def statusOf_def update_conv' Let_def)

lemma statusOf_cleanup:
  assumes "distinct (map fst devices)"
  shows "statusOf (cleanup now devices) k =
     (case map_of devices k of
        None \<Rightarrow> None
      | Some device \<Rightarrow>
          if now - lastHeartbeat device > 300000 then None
          else if now - lastHeartbeat device > 60000 \<and> status device \<noteq> DISABLED
          then Some OFFLINE else Some (status device))"
  by (simp add: statusOf_def cleanup_lookup [OF assms] split: option.splits)

lemma distinct_deviceStep:
  "distinct (map fst devices) \<Longrightarrow> distinct (map fst (deviceStep op devices))"
proof (cases op)
  case (Cleanup now)
  assume "distinct (map fst devices)"
  then show ?thesis by (simp add: Cleanup cleanup_def cleanupEntries_distinct)
qed (auto simp: register_def heartbeat_def toggleDevice_def updateScore_def remove_def
       Let_def distinct_update distinct_delete split: option.splits)

lemma disabled_step:
  assumes d: "distinct (map fst devices)" and h: "heartbeatOrSweep op"
    and s: "statusOf devices k = Some DISABLED \<or> statusOf devices k = None"
  shows "statusOf (deviceStep op devices) k = Some DISABLED
         \<or> statusOf (deviceStep op devices) k = None"
proof (cases op)
  case (Heartbeat ident li now)
  with s show ?thesis by (auto simp: statusOf_heartbeat)
next
  case (Cleanup now)
  from s have "map_of devices k = None
      \<or> (\<exists>dv. map_of devices k = Some dv \<and> status dv = DISABLED)"
    by (auto simp: statusOf_def)
  with statusOf_cleanup [OF d, of now k] show ?thesis
    by (auto simp: Cleanup split: if_splits)
qed (use h in simp_all)

lemma disabled_fold:
  "distinct (map fst devices) \<Longrightarrow> list_all heartbeatOrSweep ops \<Longrightarrow>
   statusOf devices k = Some DISABLED \<or> statusOf devices k = None \<Longrightarrow>
   statusOf (fold deviceStep ops devices) k = Some DISABLED
   \<or> statusOf (fold deviceStep ops devices) k = None"
proof (induction ops arbitrary: devices)
  case Nil
  then show ?case by simp
next
  case (Cons op ops)
  from Cons.prems have h: "heartbeatOrSweep op" and hs: "list_all heartbeatOrSweep ops"
    by simp_all
  have "statusOf (fold deviceStep ops (deviceStep op devices)) k = Some DISABLED
        \<or> statusOf (fold deviceStep ops (deviceStep op devices)) k = None"
    by (rule Cons.IH [OF distinct_deviceStep [OF Cons.prems(1)] hs
          disabled_step [OF Cons.prems(1) h Cons.prems(3)]])
  then show ?case by simp
qed

lemma disabled_left_only_by:
  assumes d: "distinct (map fst devices)"
    and s: "statusOf devices k = Some DISABLED"
    and a: "statusOf (deviceStep op devices) k = Some st" and n: "st \<noteq> DISABLED"
  shows "st = ONLINE \<and> (op = ToggleDevice k True
           \<or> (\<exists>nm caps swarm now1 now2. op = Register k nm caps swarm now1 now2))"
proof (cases op)
  case (Register ident nm caps swarm now1 now2)
  with s a n show ?thesis by (auto simp: statusOf_register split: if_splits)
next
  case (Heartbeat ident li now)
  with s a n show ?thesis by (auto simp: statusOf_heartbeat split: if_splits)
next
  case (ToggleDevice ident enabled)
  with s a n show ?thesis by (auto simp: statusOf_toggleDevice split: if_splits)
next
  case (UpdateScore ident score)
  with s a n show ?thesis by (auto simp: statusOf_updateScore)
next
  case (Remove ident)
  with s a n show ?thesis by (auto simp: statusOf_remove split: if_splits)
next
  case (Cleanup now)
  from s have "\<exists>dv. map_of devices k = Some dv \<and> status dv = DISABLED"
    by (auto simp: statusOf_def)
  with statusOf_cleanup [OF d, of now k] a n show ?thesis
    by (auto simp: Cleanup split: if_splits)
qed

text \<open>
  Claim C8, in the form that holds of the code. Under any sequence of heartbeat and sweep steps a device whose
  status is DISABLED keeps that status for as long as the registry holds its record
  (the sweep leaves the record untouched, or deletes it after more than 300000 ms of
  silence). \<open>toggleDevice\<close> with \<open>enabled = true\<close> moves it to ONLINE, and so does
  \<open>register\<close>, which sets ONLINE whatever the status was; no other call of the
  device manager takes a device out of DISABLED.
\<close>

theorem disabled_is_sticky:
  "(distinct (map fst devices) \<and> list_all heartbeatOrSweep ops
      \<and> statusOf devices k = Some DISABLED \<longrightarrow>
      statusOf (fold deviceStep ops devices) k = Some DISABLED
      \<or> statusOf (fold deviceStep ops devices) k = None)
   \<and> (statusOf devices k = Some DISABLED \<longrightarrow>
        statusOf (heartbeat ident lastInteraction now devices) k = Some DISABLED)
   \<and> (distinct (map fst devices) \<and> map_of devices k = Some device
        \<and> status device = DISABLED \<longrightarrow>
        map_of (cleanup now devices) k
          = (if now - lastHeartbeat device > 300000 then None else Some device))
   \<and> (statusOf devices k = Some DISABLED \<longrightarrow>
        statusOf (toggleDevice k True devices) k = Some ONLINE
        \<and> statusOf (toggleDevice k False devices) k = Some DISABLED)
   \<and> statusOf (register k nm caps swarm now1 now2 devices) k = Some ONLINE
   \<and> (distinct (map fst devices) \<and> statusOf devices k = Some DISABLED
        \<and> statusOf (deviceStep op devices) k = Some st \<and> st \<noteq> DISABLED \<longrightarrow>
        st = ONLINE \<and> (op = ToggleDevice k True
           \<or> (\<exists>nm caps swarm now1 now2. op = Register k nm caps swarm now1 now2)))"
proof (intro conjI impI)
  assume "distinct (map fst devices) \<and> list_all heartbeatOrSweep ops
      \<and> statusOf devices k = Some DISABLED"
  then have a: "distinct (map fst devices)" and b: "list_all heartbeatOrSweep ops"
    and c: "statusOf devices k = Some DISABLED" by simp_all
  show "statusOf (fold deviceStep ops devices) k = Some DISABLED
      \<or> statusOf (fold deviceStep ops devices) k = None"
    by (rule disabled_fold [OF a b disjI1 [OF c]])
next
  assume "statusOf devices k = Some DISABLED"
  then show "statusOf (heartbeat ident lastInteraction now devices) k = Some DISABLED"
    by (simp add: statusOf_heartbeat)
next
  assume "distinct (map fst devices) \<and> map_of devices k = Some device
        \<and> status device = DISABLED"
  then show "map_of (cleanup now devices) k
          = (if now - lastHeartbeat device > 300000 then None else Some device)"
    by (simp add: cleanup_lookup)
next
  assume "statusOf devices k = Some DISABLED"
  then show "statusOf (toggleDevice k True devices) k = Some ONLINE"
    by (simp add: statusOf_toggleDevice)
next
  assume "statusOf devices k = Some DISABLED"
  then show "statusOf (toggleDevice k False devices) k = Some DISABLED"
    by (simp add: statusOf_toggleDevice)
next
  show "statusOf (register k nm caps swarm now1 now2 devices) k = Some ONLINE"
    by (simp add: statusOf_register)
next
  assume h: "distinct (map fst devices) \<and> statusOf devices k = Some DISABLED
        \<and> statusOf (deviceStep op devices) k = Some st \<and> st \<noteq> DISABLED"
  with disabled_left_only_by [of devices k op st] show "st = ONLINE" by blast
  from h disabled_left_only_by [of devices k op st]
  show "op = ToggleDevice k True
           \<or> (\<exists>nm caps swarm now1 now2. op = Register k nm caps swarm now1 now2)" by blast
qed

theorem disabled_is_sticky_witness:
  "distinct (map fst exampleRegistry) \<and> list_all heartbeatOrSweep sweepOps
   \<and> statusOf exampleRegistry ''off'' = Some DISABLED
   \<and> statusOf (fold deviceStep sweepOps exampleRegistry) ''off'' = Some DISABLED
   \<and> statusOf (heartbeat ''off'' None 950000 exampleRegistry) ''off'' = Some DISABLED
   \<and> statusOf (toggleDevice ''off'' True exampleRegistry) ''off'' = Some ONLINE
   \<and> statusOf (toggleDevice ''off'' False exampleRegistry) ''off'' = Some DISABLED
   \<and> statusOf (deviceStep (ToggleDevice ''off'' True) exampleRegistry) ''off'' = Some ONLINE
   \<and> ONLINE \<noteq> DISABLED"
proof -
  have d: "distinct (map fst exampleRegistry)" by (simp add: exampleRegistry_def)
  have h: "list_all heartbeatOrSweep sweepOps" by (simp add: sweepOps_def)
  have s: "statusOf exampleRegistry ''off'' = Some DISABLED" by code_simp
  have f: "statusOf (fold deviceStep sweepOps exampleRegistry) ''off'' = Some DISABLED"
    by code_simp
  have t: "statusOf (deviceStep (ToggleDevice ''off'' True) exampleRegistry) ''off''
             = Some ONLINE"
    by code_simp
  from disabled_is_sticky [where devices = exampleRegistry and ops = sweepOps
      and k = "''off''" and ident = "''off''" and lastInteraction = None and now = 950000
      and op = "ToggleDevice ''off'' True" and st = ONLINE] d h s f t
  show ?thesis by simp
qed

theorem disabled_only_by_toggle_counterexample:
  "statusOf exampleRegistry ''off'' = Some DISABLED
   \<and> statusOf (register ''off'' ''rig'' capsGpu ''S'' 1000000 1000000 exampleRegistry) ''off''
       = Some ONLINE"
  by code_simp


section \<open>The rate limit of token issuance\<close>

lemma generateToken_limited:
  "5 \<le> length (recentIssuances a swarm now) \<Longrightarrow>
     generateToken swarm now now2 token a = (None, a)"
  by (simp add: generateToken_def recentIssuances_def Let_def)

lemma generateToken_issued:
  "length (recentIssuances a swarm now) < 5 \<Longrightarrow>
     generateToken swarm now now2 token a =
       (Some token,
        a\<lparr>tokenGenerationLog :=
             AList.update swarm (recentIssuances a swarm now @ [now]) (tokenGenerationLog a),
          activeTokens :=
             AList.update token \<lparr>token_swarmId = swarm, expiresAt = now2 + TOKEN_TTL_MS\<rparr>
               (activeTokens a)\<rparr>)"
  by (simp add: generateToken_def recentIssuances_def Let_def)

lemma recent_after_issue:
  "length (recentIssuances a swarm now) < 5 \<Longrightarrow>
     recentIssuances (snd (generateToken swarm now now2 token a)) swarm t =
       filter (\<lambda>x. x > t - 60000) (recentIssuances a swarm now @ [now])"
  by (simp add: generateToken_issued) (simp add: recentIssuances_def update_conv')

lemma generateToken_other_swarm:
  "other \<noteq> swarm \<Longrightarrow>
     map_of (tokenGenerationLog (snd (generateToken swarm now now2 token a))) other
       = map_of (tokenGenerationLog a) other"
  by (simp add: generateToken_def Let_def update_conv')


lemma generateTokens_Cons:
  "generateTokens ((swarm, now, now2, token) # calls) a =
     (fst (generateToken swarm now now2 token a)
        # fst (generateTokens calls (snd (generateToken swarm now now2 token a))),
      snd (generateTokens calls (snd (generateToken swarm now now2 token a))))"
  by (simp add: split_beta)

lemma issue_step:
  assumes "recentIssuances a swarm now = r" and "length r < 5"
  shows "fst (generateToken swarm now nowb token a) = Some token"
    and "recentIssuances (snd (generateToken swarm now nowb token a)) swarm t
           = filter (\<lambda>x. x > t - 60000) (r @ [now])"
  using assms generateToken_issued [of a swarm now nowb token]
    recent_after_issue [of a swarm now nowb token t]
  by simp_all

lemma six_calls:
  assumes r0: "recentIssuances a swarm t1 = []"
    and o: "t1 \<le> t2" "t2 \<le> t3" "t3 \<le> t4" "t4 \<le> t5" "t5 \<le> t6" "t6 \<le> t7"
    and w: "t6 < t1 + 60000" and sl: "t1 + 60000 \<le> t7"
  shows "fst (generateTokens
           [(swarm, t1, e1, k1), (swarm, t2, e2, k2), (swarm, t3, e3, k3), (swarm, t4, e4, k4),
            (swarm, t5, e5, k5), (swarm, t6, e6, k6), (swarm, t7, e7, k7)] a)
         = [Some k1, Some k2, Some k3, Some k4, Some k5, None, Some k7]"
proof -
  define a1 where "a1 = snd (generateToken swarm t1 e1 k1 a)"
  define a2 where "a2 = snd (generateToken swarm t2 e2 k2 a1)"
  define a3 where "a3 = snd (generateToken swarm t3 e3 k3 a2)"
  define a4 where "a4 = snd (generateToken swarm t4 e4 k4 a3)"
  define a5 where "a5 = snd (generateToken swarm t5 e5 k5 a4)"
  have f1: "fst (generateToken swarm t1 e1 k1 a) = Some k1"
    by (rule issue_step(1) [OF r0]) simp
  have r1: "recentIssuances a1 swarm t2 = [t1]"
    unfolding a1_def using issue_step(2) [OF r0, where nowb = e1 and token = k1 and t = t2] o w by simp
  have f2: "fst (generateToken swarm t2 e2 k2 a1) = Some k2"
    by (rule issue_step(1) [OF r1]) simp
  have r2: "recentIssuances a2 swarm t3 = [t1, t2]"
    unfolding a2_def using issue_step(2) [OF r1, where nowb = e2 and token = k2 and t = t3] o w by simp
  have f3: "fst (generateToken swarm t3 e3 k3 a2) = Some k3"
    by (rule issue_step(1) [OF r2]) simp
  have r3: "recentIssuances a3 swarm t4 = [t1, t2, t3]"
    unfolding a3_def using issue_step(2) [OF r2, where nowb = e3 and token = k3 and t = t4] o w by simp
  have f4: "fst (generateToken swarm t4 e4 k4 a3) = Some k4"
    by (rule issue_step(1) [OF r3]) simp
  have r4: "recentIssuances a4 swarm t5 = [t1, t2, t3, t4]"
    unfolding a4_def using issue_step(2) [OF r3, where nowb = e4 and token = k4 and t = t5] o w by simp
  have f5: "fst (generateToken swarm t5 e5 k5 a4) = Some k5"
    by (rule issue_step(1) [OF r4]) simp
  have r5: "recentIssuances a5 swarm t6 = [t1, t2, t3, t4, t5]"
    unfolding a5_def using issue_step(2) [OF r4, where nowb = e5 and token = k5 and t = t6] o w by simp
  have g6: "generateToken swarm t6 e6 k6 a5 = (None, a5)"
    by (rule generateToken_limited) (simp add: r5)
  have r6: "recentIssuances a5 swarm t7 = filter (\<lambda>x. x > t7 - 60000) [t1, t2, t3, t4, t5]"
    unfolding a5_def using issue_step(2) [OF r4, where nowb = e5 and token = k5 and t = t7] by simp
  have "length (recentIssuances a5 swarm t7) < 5"
    unfolding r6 using sl
    by simp
  then have f7: "fst (generateToken swarm t7 e7 k7 a5) = Some k7"
    by (simp add: generateToken_issued)
  show ?thesis
    using f1 f2 f3 f4 f5 g6 f7
    by (simp del: generateTokens.simps(2)
          add: generateTokens_Cons a1_def a2_def a3_def a4_def a5_def)
qed


lemma generateTokens_other_swarm:
  "list_all (\<lambda>c. fst c \<noteq> other) calls \<Longrightarrow>
     map_of (tokenGenerationLog (snd (generateTokens calls a))) other
       = map_of (tokenGenerationLog a) other"
proof (induction calls arbitrary: a)
  case Nil
  show ?case by simp
next
  case (Cons c calls)
  obtain swarm now nowb token where c: "c = (swarm, now, nowb, token)" by (cases c)
  from Cons.prems c have ne: "other \<noteq> swarm" and rest: "list_all (\<lambda>c. fst c \<noteq> other) calls"
    by auto
  show ?case
    unfolding c generateTokens_Cons snd_conv
    by (simp only: Cons.IH [OF rest] generateToken_other_swarm [OF ne])
qed

text \<open>
  Claim C9. \<open>generateToken\<close> counts the issuances recorded for the swarm in the 60
  seconds before the call. With fewer than 5 it returns the token and records the time
  of the call; with 5 or more it returns no token and changes nothing. Of six calls for
  one swarm inside one 60-second window, made when nothing recent is recorded, the
  first five return their token and the sixth returns none; a later call made 60
  seconds or more after the first issuance returns its token again. Calls for other
  swarms change neither the count nor the reply for this swarm.
\<close>

theorem token_rate_limit:
  "(length (recentIssuances a swarm now) < 5 \<longrightarrow>
      fst (generateToken swarm now now2 token a) = Some token
      \<and> map_of (tokenGenerationLog (snd (generateToken swarm now now2 token a))) swarm
          = Some (recentIssuances a swarm now @ [now]))
   \<and> (5 \<le> length (recentIssuances a swarm now) \<longrightarrow>
        generateToken swarm now now2 token a = (None, a))
   \<and> (recentIssuances a swarm t1 = []
        \<and> t1 \<le> t2 \<and> t2 \<le> t3 \<and> t3 \<le> t4 \<and> t4 \<le> t5 \<and> t5 \<le> t6 \<and> t6 \<le> t7
        \<and> t6 < t1 + 60000 \<and> t1 + 60000 \<le> t7 \<longrightarrow>
        fst (generateTokens
           [(swarm, t1, e1, k1), (swarm, t2, e2, k2), (swarm, t3, e3, k3), (swarm, t4, e4, k4),
            (swarm, t5, e5, k5), (swarm, t6, e6, k6), (swarm, t7, e7, k7)] a)
         = [Some k1, Some k2, Some k3, Some k4, Some k5, None, Some k7])
   \<and> (list_all (\<lambda>c. fst c \<noteq> swarm) calls \<longrightarrow>
        recentIssuances (snd (generateTokens calls a)) swarm now = recentIssuances a swarm now
        \<and> fst (generateToken swarm now now2 token (snd (generateTokens calls a)))
            = fst (generateToken swarm now now2 token a))"
proof (intro conjI impI)
  assume l: "length (recentIssuances a swarm now) < 5"
  then show "fst (generateToken swarm now now2 token a) = Some token"
    by (simp add: generateToken_issued)
  from l show "map_of (tokenGenerationLog (snd (generateToken swarm now now2 token a))) swarm
          = Some (recentIssuances a swarm now @ [now])"
    by (simp add: generateToken_issued update_conv')
next
  assume "5 \<le> length (recentIssuances a swarm now)"
  then show "generateToken swarm now now2 token a = (None, a)"
    by (rule generateToken_limited)
next
  assume "recentIssuances a swarm t1 = []
        \<and> t1 \<le> t2 \<and> t2 \<le> t3 \<and> t3 \<le> t4 \<and> t4 \<le> t5 \<and> t5 \<le> t6 \<and> t6 \<le> t7
        \<and> t6 < t1 + 60000 \<and> t1 + 60000 \<le> t7"
  then show "fst (generateTokens
           [(swarm, t1, e1, k1), (swarm, t2, e2, k2), (swarm, t3, e3, k3), (swarm, t4, e4, k4),
            (swarm, t5, e5, k5), (swarm, t6, e6, k6), (swarm, t7, e7, k7)] a)
         = [Some k1, Some k2, Some k3, Some k4, Some k5, None, Some k7]"
    by (intro six_calls) simp_all
next
  assume c: "list_all (\<lambda>c. fst c \<noteq> swarm) calls"
  show r: "recentIssuances (snd (generateTokens calls a)) swarm now
             = recentIssuances a swarm now"
    by (simp add: recentIssuances_def generateTokens_other_swarm [OF c])
  show "fst (generateToken swarm now now2 token (snd (generateTokens calls a)))
            = fst (generateToken swarm now now2 token a)"
  proof (cases "length (recentIssuances a swarm now) < 5")
    case True
    with r show ?thesis by (simp add: generateToken_issued)
  next
    case False
    with r show ?thesis by (simp add: generateToken_limited)
  qed
qed

theorem token_rate_limit_witness:
  "fst (generateTokens sixCalls newAuthManager)
     = [Some ''AAAAAA'', Some ''BBBBBB'', Some ''CCCCCC'', Some ''DDDDDD'', Some ''EEEEEE'',
        None, Some ''GGGGGG'']
   \<and> length (recentIssuances (snd (generateTokens (take 5 sixCalls) newAuthManager)) ''S'' 6000)
       = 5
   \<and> generateToken ''S'' 6000 6000 ''FFFFFF'' (snd (generateTokens (take 5 sixCalls) newAuthManager))
       = (None, snd (generateTokens (take 5 sixCalls) newAuthManager))
   \<and> list_all (\<lambda>c. fst c \<noteq> ''T'') sixCalls
   \<and> fst (generateToken ''T'' 6000 6000 ''HHHHHH'' (snd (generateTokens sixCalls newAuthManager)))
       = Some ''HHHHHH''"
proof -
  have r0: "recentIssuances newAuthManager ''S'' 1000 = []" by code_simp
  have r5: "length (recentIssuances (snd (generateTokens (take 5 sixCalls) newAuthManager))
              ''S'' 6000) = 5"
    by code_simp
  have o: "list_all (\<lambda>c. fst c \<noteq> ''T'') sixCalls" by code_simp
  have rt: "recentIssuances newAuthManager ''T'' 6000 = []" by code_simp
  have six: "fst (generateTokens sixCalls newAuthManager)
     = [Some ''AAAAAA'', Some ''BBBBBB'', Some ''CCCCCC'', Some ''DDDDDD'', Some ''EEEEEE'',
        None, Some ''GGGGGG'']"
    using token_rate_limit [where a = newAuthManager and swarm = "''S''"
        and ?t1.0 = 1000 and ?t2.0 = 2000 and ?t3.0 = 3000 and ?t4.0 = 4000 and ?t5.0 = 5000
        and ?t6.0 = 6000 and ?t7.0 = 61000
        and ?e1.0 = 1000 and ?e2.0 = 2000 and ?e3.0 = 3000 and ?e4.0 = 4000 and ?e5.0 = 5000
        and ?e6.0 = 6000 and ?e7.0 = 61000
        and ?k1.0 = "''AAAAAA''" and ?k2.0 = "''BBBBBB''" and ?k3.0 = "''CCCCCC''"
        and ?k4.0 = "''DDDDDD''" and ?k5.0 = "''EEEEEE''" and ?k6.0 = "''FFFFFF''"
        and ?k7.0 = "''GGGGGG''"] r0
    by (simp add: sixCalls_def)
  have lim: "generateToken ''S'' 6000 6000 ''FFFFFF''
               (snd (generateTokens (take 5 sixCalls) newAuthManager))
       = (None, snd (generateTokens (take 5 sixCalls) newAuthManager))"
    using token_rate_limit [where a = "snd (generateTokens (take 5 sixCalls) newAuthManager)"
        and swarm = "''S''" and now = 6000] r5
    by simp
  have oth: "fst (generateToken ''T'' 6000 6000 ''HHHHHH''
                (snd (generateTokens sixCalls newAuthManager))) = Some ''HHHHHH''"
    using token_rate_limit [where a = newAuthManager and swarm = "''T''" and now = 6000
        and calls = sixCalls and token = "''HHHHHH''"] o rt
    by simp
  from six r5 lim o oth show ?thesis by simp
qed

section \<open>The weight of a device\<close>

lemma toNumber_40: "toNumber 40 = Fin 40"
  by (rule toNumber_whole) (simp add: wholeNumber_def)

text \<open>
  Claim C6, in the form that holds of the code: a device with 4 cores, no GPU and an
  \<open>opsScore\<close> of 0 has weight 40, and for every device whose core count is neither 0
  nor \<open>NaN\<close> and whose \<open>opsScore\<close> is not \<open>NaN\<close>, \<open>calculateWeight\<close> is
  \<open>max(1, cpuCores * 10 + (gpu ? 50 : 0) + min(opsScore / 1000, 100))\<close> in the
  arithmetic of doubles.
\<close>

theorem calculateWeight_formula:
  "(cpuCores (capabilities device) = Fin 4 \<and> \<not> gpuAvailable (capabilities device)
      \<and> opsScore device = Fin 0 \<longrightarrow> calculateWeight device = Fin 40)
   \<and> (truthy (cpuCores (capabilities device)) \<and> opsScore device \<noteq> NaN \<longrightarrow>
        calculateWeight device =
          jmax (Fin 1)
            (jadd (jadd (jmul (cpuCores (capabilities device)) (Fin 10))
                     (if gpuAvailable (capabilities device) then Fin 50 else Fin 0))
               (jmin (jdiv (opsScore device) (Fin 1000)) (Fin 100))))"
proof (intro conjI impI)
  assume "cpuCores (capabilities device) = Fin 4 \<and> \<not> gpuAvailable (capabilities device)
      \<and> opsScore device = Fin 0"
  then show "calculateWeight device = Fin 40"
    by (simp add: calculateWeight_def jor_def Let_def toNumber_40 toNumber_zero jmin_def
          jmax_def)
next
  assume h: "truthy (cpuCores (capabilities device)) \<and> opsScore device \<noteq> NaN"
  then have "jor (opsScore device) (Fin 0) = opsScore device"
    by (cases "opsScore device") (simp_all add: jor_def)
  with h show "calculateWeight device =
          jmax (Fin 1)
            (jadd (jadd (jmul (cpuCores (capabilities device)) (Fin 10))
                     (if gpuAvailable (capabilities device) then Fin 50 else Fin 0))
               (jmin (jdiv (opsScore device) (Fin 1000)) (Fin 100)))"
    by (simp add: calculateWeight_def jor_def Let_def)
qed

theorem calculateWeight_formula_witness:
  "calculateWeight deviceD = Fin 40
   \<and> truthy (cpuCores (capabilities deviceG)) \<and> opsScore deviceG \<noteq> NaN
   \<and> calculateWeight deviceG =
       jmax (Fin 1)
         (jadd (jadd (jmul (cpuCores (capabilities deviceG)) (Fin 10))
                  (if gpuAvailable (capabilities deviceG) then Fin 50 else Fin 0))
            (jmin (jdiv (opsScore deviceG) (Fin 1000)) (Fin 100)))
   \<and> calculateWeight deviceG = Fin 155"
proof -
  have g: "calculateWeight deviceG = Fin 155" by code_simp
  from calculateWeight_formula [of deviceD] calculateWeight_formula [of deviceG] g
  show ?thesis by (simp add: deviceD_def deviceG_def caps4_def capsGpu_def)
qed

text \<open>
  The claim as worded does not hold: the weight of the device with 4 cores, no GPU and
  an \<open>opsScore\<close> of 0 is not 41.
\<close>

theorem calculateWeight_41_counterexample:
  "cpuCores (capabilities deviceD) = Fin 4 \<and> \<not> gpuAvailable (capabilities deviceD)
   \<and> opsScore deviceD = Fin 0 \<and> calculateWeight deviceD \<noteq> Fin 41"
proof -
  have "calculateWeight deviceD = Fin 40" by code_simp
  then show ?thesis by (simp add: deviceD_def caps4_def)
qed

section \<open>The coordinator's copies\<close>

lemma registerDeviceInScheduler_quota:
  "quota_store st = deviceQuotas s \<Longrightarrow>
     quota_store (registerDeviceInScheduler device st) = deviceQuotas (registerDevice device s)"
  by (simp add: registerDeviceInScheduler_def registerDevice_def Let_def)

lemma releaseJobSlot_stored_quota:
  "quota_store st = deviceQuotas s \<Longrightarrow>
     quota_store (releaseJobSlot_stored k d st) = deviceQuotas (releaseJobSlot k d s)
     \<and> weights_store (releaseJobSlot_stored k d st) = weights_store st
     \<and> queue_store (releaseJobSlot_stored k d st) = queue_store st"
  by (cases "map_of (deviceQuotas s) k"; cases d)
     (simp_all add: releaseJobSlot_stored_def releaseJobSlot_def Let_def)

lemma handleGenerateToken_generateToken:
  "handleGenerateToken swarm now token st =
     (case generateToken swarm now now token st of
        (None, st1) \<Rightarrow> ([], st1)
      | (Some t, st1) \<Rightarrow> (t, st1))"
  by (simp add: handleGenerateToken_def generateToken_def TOKEN_TTL_MS_def Let_def stored_def)

end
